theory Spec2Isabelle
  imports Main "HOL-Library.AList" "HOL-Library.Sublist"
begin

section \<open>Data model of pkg/integrations/manager.go\<close>

text \<open>
  A Go \<^verbatim>\<open>error\<close> is modelled as \<open>err option\<close>: \<open>None\<close> is \<^verbatim>\<open>nil\<close>,
  \<open>Some Canceled\<close> is the sentinel \<^verbatim>\<open>context.Canceled\<close> (compared by identity in
  the source, so a wrapped cancellation is an \<open>Other\<close> error), and \<open>Some (Other s)\<close> is
  any other error value with message \<open>s\<close>.
\<close>

datatype err = Canceled | Other string

text \<open>The fields of \<^verbatim>\<open>relabel.Config\<close> that the manager fills in.\<close>

record RelabelConfig =
  SourceLabels :: "string list"
  Action :: string
  Separator :: string
  Regex :: string
  Replacement :: string
  TargetLabel :: string

text \<open>
  \<^verbatim>\<open>config.Common\<close>, as far as manager.go reads it. Durations are Go's
  \<^verbatim>\<open>time.Duration\<close>, a count of nanoseconds.
\<close>

record CommonConfig =
  Enabled :: bool
  ScrapeIntegration :: "bool option"
  ScrapeInterval :: int
  ScrapeTimeout :: int
  RelabelConfigs :: "RelabelConfig list"
  MetricRelabelConfigs :: "RelabelConfig list"
  WALTruncateFrequency :: int

text \<open>
  The \<^verbatim>\<open>Config\<close> interface of an integration: its \<^verbatim>\<open>Name()\<close>, its
  \<^verbatim>\<open>CommonConfig()\<close> and the rest of its settings, which the manager never looks into
  but which take part in the structural comparison.
\<close>

record Config =
  Name :: string
  Common :: CommonConfig
  Settings :: string

text \<open>What an integration declares through \<^verbatim>\<open>ScrapeConfigs()\<close>.\<close>

record ScrapeTarget =
  JobName :: string
  MetricsPath :: string

text \<open>
  The \<^verbatim>\<open>Integration\<close> interface. \<open>ScrapeConfigs\<close> is what \<^verbatim>\<open>i.ScrapeConfigs()\<close>
  returns and \<open>MetricsHandlerErr\<close> the error of \<^verbatim>\<open>i.MetricsHandler()\<close> (\<open>None\<close> when a
  handler is produced). The results of \<^verbatim>\<open>i.Run(ctx)\<close> are supplied to the run loop
  separately, one per invocation.
\<close>

record Integration =
  ScrapeConfigs :: "ScrapeTarget list"
  MetricsHandlerErr :: "err option"

record ManagerConfig =
  ScrapeIntegrations :: bool
  ReplaceInstanceLabel :: bool
  UseHostnameLabel :: bool
  Integrations :: "Config list"
  Labels :: "(string \<times> string) list"
  PrometheusRemoteWrite :: "string list"
  IntegrationRestartBackoff :: int
  ListenPort :: int
  ListenHost :: string
  TLSConfig :: string
  ServerUsingTLS :: bool

text \<open>
  \<^verbatim>\<open>integrationProcess\<close>. The source handles processes through pointers and the handler
  cache compares those pointers; \<open>p_id\<close> is that identity, allocated from a counter of
  the manager whenever the source evaluates \<^verbatim>\<open>&integrationProcess{...}\<close>. The remaining
  fields of the source are the same for every process the manager builds
  (\<^verbatim>\<open>log: m.logger\<close>, \<^verbatim>\<open>wg: &m.wg\<close>, \<^verbatim>\<open>wait: m.instanceBackoff\<close>); the cancel function
  \<^verbatim>\<open>stop\<close> is observed through the event \<open>ProcStop\<close>.
\<close>

record integrationProcess =
  p_id :: nat
  p_cfg :: Config
  p_i :: Integration

text \<open>The projected scrape configuration and instance configuration.\<close>

record StaticConfig =
  Targets :: "string list"
  SDLabels :: "(string \<times> string) list"

record ScrapeConfig =
  SC_JobName :: string
  SC_MetricsPath :: string
  SC_Scheme :: string
  SC_HonorLabels :: bool
  SC_HonorTimestamps :: bool
  SC_ScrapeInterval :: int
  SC_ScrapeTimeout :: int
  SC_ServiceDiscoveryConfigs :: "StaticConfig list"
  SC_RelabelConfigs :: "RelabelConfig list"
  SC_MetricRelabelConfigs :: "RelabelConfig list"
  SC_HTTPClientTLSConfig :: "string option"

record InstanceConfig =
  IC_Name :: string
  IC_ScrapeConfigs :: "ScrapeConfig list"
  IC_RemoteWrite :: "string list"
  IC_WALTruncateFrequency :: int

text \<open>
  Everything observable that the manager and its run loops do, in the order in which they
  do it: log lines (message, the \<^verbatim>\<open>integration\<close> field, the \<^verbatim>\<open>err\<close> field), calls of a
  process's cancel function, launched goroutines, calls to the collaborators with their
  outcome (\<open>True\<close> when the call returned no error), invocations of the worker's
  \<^verbatim>\<open>Run\<close>, increments of the abnormal-exit counter and sleeps.
\<close>

datatype event =
    LogError string string "err option"
  | LogInfo string string
  | ProcStop integrationProcess
  | GoRun integrationProcess
  | NewIntegrationCall Config bool
  | ValidatorCall string bool
  | IM_ApplyConfig InstanceConfig bool
  | IM_DeleteConfig string
  | IRun nat
  | CounterInc string
  | Sleep int

text \<open>
  The \<^verbatim>\<open>Manager\<close>. \<open>m_done\<close> says that \<^verbatim>\<open>m.ctx\<close> has been cancelled; \<open>m_integrations\<close>
  is the map \<^verbatim>\<open>m.integrations\<close> as an association list with distinct keys, iterated in
  list order where the source ranges over the map (Go leaves that order open);
  \<open>abnormalExits\<close> is the package-level counter vector \<^verbatim>\<open>integrationAbnormalExits\<close>,
  indexed by its label.
\<close>

record Manager =
  m_cfg :: ManagerConfig
  m_done :: bool
  m_wg :: int
  m_integrations :: "(string \<times> integrationProcess) list"
  next_pid :: nat
  abnormalExits :: "string \<Rightarrow> nat"
  events :: "event list"

text \<open>
  The collaborators handed to \<^verbatim>\<open>NewManager\<close> or reached through interfaces: the host
  name, the constructor behind \<^verbatim>\<open>ic.NewIntegration\<close>, the validator (which receives a
  pointer and may complete the configuration it validates), the instance manager's
  \<^verbatim>\<open>ApplyConfig\<close>, and \<^verbatim>\<open>instance.DefaultConfig\<close>. The result of the instance manager's
  \<^verbatim>\<open>DeleteConfig\<close> is discarded by every caller in the source.
\<close>

record env =
  hostname :: string
  NewIntegration :: "Config \<Rightarrow> err + Integration"
  validator :: "InstanceConfig \<Rightarrow> err + InstanceConfig"
  im_ApplyConfig :: "InstanceConfig \<Rightarrow> err option"
  DefaultConfig :: InstanceConfig

definition emit :: "event list \<Rightarrow> Manager \<Rightarrow> Manager" where
  "emit es m = m\<lparr>events := events m @ es\<rparr>"

text \<open>The events between an earlier state and a later one.\<close>

definition emitted :: "Manager \<Rightarrow> Manager \<Rightarrow> event list" where
  "emitted m m' = drop (length (events m)) (events m')"

section \<open>The run loop\<close>

text \<open>
  One invocation of \<^verbatim>\<open>p.i.Run(p.ctx)\<close> either returns an error value or panics with a
  value, rendered as text by \<^verbatim>\<open>fmt.Errorf("%v", r)\<close>. The value that \<^verbatim>\<open>recover()\<close>
  hands back for a panic is taken to be non-nil (since Go 1.21 even \<^verbatim>\<open>panic(nil)\<close> yields
  a non-nil run-time error), so the test \<^verbatim>\<open>r != nil\<close> of the deferred function tells a
  panic from a normal return.
\<close>

datatype run_result = Returns "err option" | Panics string

text \<open>How the body of the goroutine stands.\<close>

datatype goroutine = InRun | Returned | Panicking string

definition instanceBackoff :: "Config \<Rightarrow> err option \<Rightarrow> Manager \<Rightarrow> Manager" where
  "instanceBackoff c e m =
     emit [CounterInc (Name c),
           LogError ''integration stopped abnormally, restarting after backoff'' (Name c) e,
           Sleep (IntegrationRestartBackoff (m_cfg m))]
       (m\<lparr>abnormalExits := (abnormalExits m)(Name c := Suc (abnormalExits m (Name c)))\<rparr>)"

text \<open>
  The \<^verbatim>\<open>for\<close> loop of \<^verbatim>\<open>Run\<close>. The list holds the outcomes of the successive
  invocations of the worker; once it is used up the next invocation has been made and has
  not returned, which is where a worker spends its life.
\<close>

fun for_loop :: "integrationProcess \<Rightarrow> run_result list \<Rightarrow> Manager \<Rightarrow> goroutine \<times> Manager" where
  "for_loop p [] m = (InRun, emit [IRun (p_id p)] m)"
| "for_loop p (Panics r # rs) m = (Panicking r, emit [IRun (p_id p)] m)"
| "for_loop p (Returns e # rs) m =
     (if e \<noteq> None \<and> e \<noteq> Some Canceled
      then for_loop p rs (instanceBackoff (p_cfg p) e (emit [IRun (p_id p)] m))
      else (Returned, emit [LogInfo ''stopped integration'' (Name (p_cfg p))]
                        (emit [IRun (p_id p)] m)))"

text \<open>The deferred calls run when the body returns or panics, last registered first.\<close>

definition deferred_wg_Done :: "goroutine \<times> Manager \<Rightarrow> goroutine \<times> Manager" where
  "deferred_wg_Done gm =
     (case gm of (InRun, m) \<Rightarrow> (InRun, m) | (g, m) \<Rightarrow> (g, m\<lparr>m_wg := m_wg m - 1\<rparr>))"

definition deferred_recover :: "integrationProcess \<Rightarrow> goroutine \<times> Manager \<Rightarrow> goroutine \<times> Manager" where
  "deferred_recover p gm =
     (case gm of
        (Panicking r, m) \<Rightarrow>
          (Returned, emit [LogError ''integration has panicked. THIS IS A BUG!''
                             (Name (p_cfg p)) (Some (Other r))] m)
      | (g, m) \<Rightarrow> (g, m))"

definition Run :: "integrationProcess \<Rightarrow> run_result list \<Rightarrow> Manager \<Rightarrow> goroutine \<times> Manager" where
  "Run p rs m = deferred_recover p (deferred_wg_Done (for_loop p rs (m\<lparr>m_wg := m_wg m + 1\<rparr>)))"

section \<open>Library functions used by the projection\<close>

text \<open>
  \<^verbatim>\<open>fmt.Sprintf("%d", n)\<close>: the decimal digits of an integer, with a minus sign for a
  negative one.
\<close>

fun nat_dec :: "nat \<Rightarrow> string" where
  "nat_dec n = (if n < 10 then [char_of (48 + n)]
                else nat_dec (n div 10) @ [char_of (48 + n mod 10)])"

definition int_dec :: "int \<Rightarrow> string" where
  "int_dec k = (if k < 0 then CHR ''-'' # nat_dec (nat (- k)) else nat_dec (nat k))"

text \<open>
  Go's \<^verbatim>\<open>path.Join\<close> and \<^verbatim>\<open>path.Clean\<close>, as the standard library documents them:
  the non-empty arguments are joined with slashes and the result is cleaned, that is,
  read as a sequence of slash-separated elements in which empty elements and \<^verbatim>\<open>.\<close> are
  dropped, an inner \<^verbatim>\<open>..\<close> removes the element before it, a \<^verbatim>\<open>..\<close> at the start of a
  rooted path is dropped and one at the start of a relative path is kept. \<open>dd\<close> counts
  the leading \<^verbatim>\<open>..\<close> elements that can no longer be removed.
\<close>

fun split_slash :: "string \<Rightarrow> string list" where
  "split_slash [] = [[]]"
| "split_slash (c # cs) =
     (if c = CHR ''/'' then [] # split_slash cs
      else (case split_slash cs of [] \<Rightarrow> [[c]] | x # xs \<Rightarrow> (c # x) # xs))"

fun join_slash :: "string list \<Rightarrow> string" where
  "join_slash [] = []"
| "join_slash [x] = x"
| "join_slash (x # y # ys) = x @ CHR ''/'' # join_slash (y # ys)"

fun clean_elems :: "bool \<Rightarrow> string list \<Rightarrow> nat \<Rightarrow> string list \<Rightarrow> string list" where
  "clean_elems rooted out dd [] = out"
| "clean_elems rooted out dd (e # es) =
     (if e = [] \<or> e = ''.'' then clean_elems rooted out dd es
      else if e = ''..'' then
        (if dd < length out then clean_elems rooted (butlast out) dd es
         else if \<not> rooted then clean_elems rooted (out @ [e]) (Suc (length out)) es
         else clean_elems rooted out dd es)
      else clean_elems rooted (out @ [e]) dd es)"

definition path_Clean :: "string \<Rightarrow> string" where
  "path_Clean path =
     (if path = [] then ''.''
      else let rooted = (hd path = CHR ''/'');
               out = clean_elems rooted [] 0 (split_slash path)
           in if rooted then CHR ''/'' # join_slash out
              else if out = [] then ''.'' else join_slash out)"

definition path_Join :: "string list \<Rightarrow> string" where
  "path_Join elem =
     (let es = filter (\<lambda>e. e \<noteq> []) elem
      in if es = [] then [] else path_Clean (join_slash es))"

section \<open>Projecting a worker onto an instance configuration\<close>

definition integrationKey :: "string \<Rightarrow> string" where
  "integrationKey name = ''integration/'' @ name"

definition DefaultRelabelConfigs :: "ManagerConfig \<Rightarrow> string \<Rightarrow> RelabelConfig list" where
  "DefaultRelabelConfigs c host =
     (if ReplaceInstanceLabel c
      then [\<lparr>SourceLabels = [''__address__''], Action = ''replace'', Separator = '';'',
             Regex = ''(.*)'', Replacement = host @ '':'' @ int_dec (ListenPort c),
             TargetLabel = ''instance''\<rparr>]
      else [])"

definition scrapeServiceDiscovery :: "env \<Rightarrow> ManagerConfig \<Rightarrow> StaticConfig list" where
  "scrapeServiceDiscovery en c =
     (let newHost = (if ListenHost c = [] then ''127.0.0.1'' else ListenHost c);
          localAddr = newHost @ '':'' @ int_dec (ListenPort c);
          labels0 = (if UseHostnameLabel c then [(''agent_hostname'', hostname en)] else []);
          labels = fold (\<lambda>(k, v). AList.update k v) (Labels c) labels0
      in [\<lparr>Targets = [localAddr], SDLabels = labels\<rparr>])"

definition instanceConfigForIntegration ::
    "env \<Rightarrow> Config \<Rightarrow> Integration \<Rightarrow> ManagerConfig \<Rightarrow> InstanceConfig" where
  "instanceConfigForIntegration en icfg i c =
     (let common = Common icfg;
          relabelConfigs = DefaultRelabelConfigs c (hostname en) @ RelabelConfigs common;
          schema = (if ServerUsingTLS c then ''https'' else ''http'');
          httpClientConfig = (if ServerUsingTLS c then Some (TLSConfig c) else None);
          scrapeConfigs =
            map (\<lambda>isc. \<lparr>SC_JobName = ''integrations/'' @ JobName isc,
                         SC_MetricsPath = path_Join [''/integrations'', Name icfg, MetricsPath isc],
                         SC_Scheme = schema,
                         SC_HonorLabels = False,
                         SC_HonorTimestamps = True,
                         SC_ScrapeInterval = ScrapeInterval common,
                         SC_ScrapeTimeout = ScrapeTimeout common,
                         SC_ServiceDiscoveryConfigs = scrapeServiceDiscovery en c,
                         SC_RelabelConfigs = relabelConfigs,
                         SC_MetricRelabelConfigs = MetricRelabelConfigs common,
                         SC_HTTPClientTLSConfig = httpClientConfig\<rparr>)
                (ScrapeConfigs i);
          instanceCfg = (DefaultConfig en)\<lparr>IC_Name := integrationKey (Name icfg),
                                           IC_ScrapeConfigs := scrapeConfigs,
                                           IC_RemoteWrite := PrometheusRemoteWrite c\<rparr>
      in if 0 < WALTruncateFrequency common
         then instanceCfg\<lparr>IC_WALTruncateFrequency := WALTruncateFrequency common\<rparr>
         else instanceCfg)"

section \<open>ApplyConfig\<close>

text \<open>
  Modelled from the spec: \<^verbatim>\<open>util.CompareYAML\<close> lives in pkg/util, outside the given
  sources. The spec calls its result "structurally equal"; it is equality of the two
  decoded values.
\<close>

definition CompareYAML :: "'a \<Rightarrow> 'a \<Rightarrow> bool" where
  "CompareYAML a b = (a = b)"

text \<open>
  The body of the first loop (manager.go:210-253) for one entry \<open>ic\<close> of the new
  configuration, on the flag \<^verbatim>\<open>failed\<close> and the manager.
\<close>

definition reconcile_entry :: "env \<Rightarrow> Config \<Rightarrow> bool \<times> Manager \<Rightarrow> bool \<times> Manager" where
  "reconcile_entry en ic fm =
     (let (failed, m) = fm;
          key = integrationKey (Name ic);
          old = map_of (m_integrations m) key
      in if (case old of Some p \<Rightarrow> CompareYAML (p_cfg p) ic | None \<Rightarrow> False)
         then (failed, m)
         else
           let m1 = (case old of
                       Some p \<Rightarrow> (emit [ProcStop p] m)
                                   \<lparr>m_integrations := AList.delete key (m_integrations m)\<rparr>
                     | None \<Rightarrow> m)
           in case NewIntegration en ic of
                Inl e \<Rightarrow>
                  (True,
                   emit [NewIntegrationCall ic False,
                         LogError ''failed to initialize integration. it will not run or be scraped''
                           (Name ic) (Some e),
                         IM_DeleteConfig key] m1)
              | Inr i \<Rightarrow>
                  let p = \<lparr>p_id = next_pid m1, p_cfg = ic, p_i = i\<rparr>
                  in (failed,
                      (emit [NewIntegrationCall ic True, GoRun p] m1)
                        \<lparr>next_pid := Suc (next_pid m1),
                         m_integrations := AList.update key p (m_integrations m1)\<rparr>))"

text \<open>The body of the second loop (manager.go:257-272) for one registered process.\<close>

definition sweep_entry :: "ManagerConfig \<Rightarrow> string \<times> integrationProcess \<Rightarrow> Manager \<Rightarrow> Manager" where
  "sweep_entry c kp m =
     (let (key, process) = kp;
          foundConfig = list_ex (\<lambda>ic. integrationKey (Name ic) = key) (Integrations c)
      in if foundConfig then m
         else (emit [IM_DeleteConfig key, ProcStop process] m)
                \<lparr>m_integrations := AList.delete key (m_integrations m)\<rparr>)"

text \<open>The body of the third loop (manager.go:277-302) for one registered process.\<close>

definition reapply_entry ::
    "env \<Rightarrow> ManagerConfig \<Rightarrow> string \<times> integrationProcess \<Rightarrow> bool \<times> Manager \<Rightarrow> bool \<times> Manager" where
  "reapply_entry en c kp fm =
     (let (key, p) = kp;
          (failed, m) = fm;
          shouldCollect = (case ScrapeIntegration (Common (p_cfg p)) of
                             Some b \<Rightarrow> b | None \<Rightarrow> ScrapeIntegrations c)
      in if shouldCollect then
           (let instanceConfig = instanceConfigForIntegration en (p_cfg p) (p_i p) c
            in case validator en instanceConfig of
                 Inl e \<Rightarrow>
                   (True,
                    emit [ValidatorCall key False,
                          LogError ''failed to validate generated scrape config for integration. integration will not be scraped''
                            (Name (p_cfg p)) (Some e)] m)
               | Inr validated \<Rightarrow>
                   (case im_ApplyConfig en validated of
                      Some e \<Rightarrow>
                        (True,
                         emit [ValidatorCall key True, IM_ApplyConfig validated False,
                               LogError ''failed to apply integration. integration will not be scraped''
                                 (Name (p_cfg p)) (Some e)] m)
                    | None \<Rightarrow>
                        (failed, emit [ValidatorCall key True, IM_ApplyConfig validated True] m)))
         else (failed, emit [IM_DeleteConfig key] m))"

definition ApplyConfig :: "env \<Rightarrow> ManagerConfig \<Rightarrow> Manager \<Rightarrow> err option \<times> Manager" where
  "ApplyConfig en c m =
     (if CompareYAML (m_cfg m) c then (None, m)
      else if m_done m then (Some (Other ''Manager already stopped''), m)
      else
        let (failed1, m1) = fold (reconcile_entry en) (Integrations c) (False, m);
            m2 = fold (sweep_entry c) (m_integrations m1) m1;
            (failed3, m3) = fold (reapply_entry en c) (m_integrations m2) (failed1, m2);
            m4 = m3\<lparr>m_cfg := c\<rparr>
        in (if failed3 then Some (Other ''not all integrations were correctly updated'')
            else None, m4))"

text \<open>
  The manager that \<^verbatim>\<open>NewManager\<close> builds before it applies its first configuration:
  the zero \<^verbatim>\<open>ManagerConfig\<close>, a live context and an empty registry.
\<close>

definition zeroManagerConfig :: ManagerConfig where
  "zeroManagerConfig =
     \<lparr>ScrapeIntegrations = False, ReplaceInstanceLabel = False, UseHostnameLabel = False,
      Integrations = [], Labels = [], PrometheusRemoteWrite = [],
      IntegrationRestartBackoff = 0, ListenPort = 0, ListenHost = [], TLSConfig = [],
      ServerUsingTLS = False\<rparr>"

definition emptyManager :: Manager where
  "emptyManager =
     \<lparr>m_cfg = zeroManagerConfig, m_done = False, m_wg = 0, m_integrations = [],
      next_pid = 0, abnormalExits = (\<lambda>_. 0), events = []\<rparr>"

definition NewManager :: "env \<Rightarrow> ManagerConfig \<Rightarrow> err + Manager" where
  "NewManager en c =
     (case ApplyConfig en c emptyManager of
        (Some e, m) \<Rightarrow> Inl (Other (''failed applying config: '' @
                        (case e of Canceled \<Rightarrow> ''context canceled'' | Other s \<Rightarrow> s)))
      | (None, m) \<Rightarrow> Inr m)"

text \<open>\<^verbatim>\<open>Stop\<close> cancels the root context; the wait for the run loops changes nothing here.\<close>

definition Stop :: "Manager \<Rightarrow> Manager" where
  "Stop m = m\<lparr>m_done := True\<rparr>"

section \<open>The handler cache of WireAPI\<close>

text \<open>
  A handler is the not-found handler, the internal-error handler, or a handler obtained
  from a worker. Handlers obtained from workers are told apart by the serial number of the
  \<^verbatim>\<open>MetricsHandler()\<close> call that produced them (the spec's worker contract: each call
  produces a handler), counted in \<open>made\<close>; \<open>asked\<close> lists the processes whose
  \<^verbatim>\<open>MetricsHandler()\<close> was called, latest last.
\<close>

datatype handler = NotFoundHandler | InternalServiceError | WorkerHandler nat

record handlerCacheEntry =
  hc_handler :: handler
  hc_process :: nat

record wire =
  handlerCache :: "string \<rightharpoonup> handlerCacheEntry"
  made :: nat
  asked :: "nat list"

text \<open>
  The tail of \<^verbatim>\<open>loadHandler\<close> (manager.go:458-468): ask the worker for a handler and
  cache it together with the process it belongs to.
\<close>

definition new_handler :: "integrationProcess \<Rightarrow> string \<Rightarrow> wire \<Rightarrow> handler \<times> wire" where
  "new_handler p key w =
     (case MetricsHandlerErr (p_i p) of
        Some e \<Rightarrow> (InternalServiceError, w\<lparr>asked := asked w @ [p_id p]\<rparr>)
      | None \<Rightarrow>
          let h = WorkerHandler (made w)
          in (h, w\<lparr>handlerCache := (handlerCache w)(key \<mapsto> \<lparr>hc_handler = h, hc_process = p_id p\<rparr>),
                   made := Suc (made w),
                   asked := asked w @ [p_id p]\<rparr>))"

definition loadHandler :: "Manager \<Rightarrow> string \<Rightarrow> wire \<Rightarrow> handler \<times> wire" where
  "loadHandler m key w =
     (case map_of (m_integrations m) key of
        None \<Rightarrow> (NotFoundHandler, w\<lparr>handlerCache := (handlerCache w)(key := None)\<rparr>)
      | Some p \<Rightarrow>
          (case handlerCache w key of
             Some cacheEntry \<Rightarrow>
               if hc_process cacheEntry = p_id p then (hc_handler cacheEntry, w)
               else new_handler p key w
           | None \<Rightarrow> new_handler p key w))"

section \<open>Vocabulary of the statements\<close>

text \<open>
  A result of the worker's \<^verbatim>\<open>Run\<close> that makes the loop go round again: a non-nil error
  other than the cancellation sentinel.
\<close>

definition failure :: "run_result \<Rightarrow> bool" where
  "failure r = (case r of Returns (Some (Other s)) \<Rightarrow> True | _ \<Rightarrow> False)"

text \<open>A run of failures, one for each error text.\<close>

definition fails :: "string list \<Rightarrow> run_result list" where
  "fails ss = map (\<lambda>s. Returns (Some (Other s))) ss"

text \<open>What one failed round of the loop of process \<open>p\<close> does, for the error text \<open>s\<close>.\<close>

definition backoff_events :: "integrationProcess \<Rightarrow> Manager \<Rightarrow> string \<Rightarrow> event list" where
  "backoff_events p m s =
     [IRun (p_id p), CounterInc (Name (p_cfg p)),
      LogError ''integration stopped abnormally, restarting after backoff''
        (Name (p_cfg p)) (Some (Other s)),
      Sleep (IntegrationRestartBackoff (m_cfg m))]"

text \<open>The state after one failed round: the invocation, then the backoff callback.\<close>

definition retry :: "integrationProcess \<Rightarrow> string \<Rightarrow> Manager \<Rightarrow> Manager" where
  "retry p s m = instanceBackoff (p_cfg p) (Some (Other s)) (emit [IRun (p_id p)] m)"

text \<open>Recognisers for counting invocations, sleeps and counter increments.\<close>

definition is_run :: "event \<Rightarrow> bool" where
  "is_run e = (case e of IRun n \<Rightarrow> True | _ \<Rightarrow> False)"

definition is_sleep :: "event \<Rightarrow> bool" where
  "is_sleep e = (case e of Sleep d \<Rightarrow> True | _ \<Rightarrow> False)"

definition is_inc :: "event \<Rightarrow> bool" where
  "is_inc e = (case e of CounterInc n \<Rightarrow> True | _ \<Rightarrow> False)"

definition inc_or_sleep :: "event \<Rightarrow> bool" where
  "inc_or_sleep e = (is_inc e \<or> is_sleep e)"

text \<open>A path element that \<^verbatim>\<open>path.Clean\<close> leaves alone.\<close>

definition plain_segment :: "string \<Rightarrow> bool" where
  "plain_segment s = (s \<noteq> [] \<and> s \<noteq> ''.'' \<and> s \<noteq> ''..'' \<and> CHR ''/'' \<notin> set s)"

text \<open>
  When every handler in the cache came from a worker and was counted when it was made.
  The empty cache that \<^verbatim>\<open>WireAPI\<close> starts from is such a cache, and \<open>loadHandler\<close> keeps
  it so.
\<close>

definition cache_ok :: "wire \<Rightarrow> bool" where
  "cache_ok w = (\<forall>e \<in> ran (handlerCache w). \<exists>n < made w. hc_handler e = WorkerHandler n)"

text \<open>The cache holds no handler made for process \<open>p\<close> under the key.\<close>

definition uncached :: "wire \<Rightarrow> string \<Rightarrow> integrationProcess \<Rightarrow> bool" where
  "uncached w key p = (case handlerCache w key of
                         Some cacheEntry \<Rightarrow> hc_process cacheEntry \<noteq> p_id p | None \<Rightarrow> True)"

definition wire0 :: wire where
  "wire0 = \<lparr>handlerCache = Map.empty, made = 0, asked = []\<rparr>"

text \<open>The key under which the manager registers a process: the identity key of the worker
  configuration it was built from.\<close>

definition key_of :: "integrationProcess \<Rightarrow> string" where
  "key_of p = integrationKey (Name (p_cfg p))"

text \<open>The shape of every registry the manager builds: no key twice, no process twice, every
  process under the key of its own configuration and allocated before \<open>next_pid\<close>.\<close>

definition wf_registry :: "Manager \<Rightarrow> bool" where
  "wf_registry m =
     (distinct (map fst (m_integrations m))
      \<and> distinct (map (\<lambda>kp. p_id (snd kp)) (m_integrations m))
      \<and> list_all (\<lambda>kp. fst kp = key_of (snd kp) \<and> p_id (snd kp) < next_pid m) (m_integrations m))"

text \<open>A call to a collaborator that returned an error: one of the per-worker sub-steps failed.\<close>

definition failed_call :: "event \<Rightarrow> bool" where
  "failed_call e = (case e of NewIntegrationCall ic ok \<Rightarrow> \<not> ok | ValidatorCall k ok \<Rightarrow> \<not> ok
                    | IM_ApplyConfig ic ok \<Rightarrow> \<not> ok | _ \<Rightarrow> False)"

text \<open>The identity keys of the entries of a configuration.\<close>

definition config_keys :: "ManagerConfig \<Rightarrow> string set" where
  "config_keys c = (\<lambda>ic. integrationKey (Name ic)) ` set (Integrations c)"

text \<open>\<^verbatim>\<open>shouldCollect\<close> of the third loop: the per-worker override, else the global default.\<close>

definition should_collect :: "ManagerConfig \<Rightarrow> integrationProcess \<Rightarrow> bool" where
  "should_collect c p = (case ScrapeIntegration (Common (p_cfg p)) of
                           Some b \<Rightarrow> b | None \<Rightarrow> ScrapeIntegrations c)"

text \<open>The registry already holds, under the key of \<open>ic\<close>, a process built from exactly \<open>ic\<close>.\<close>

definition kept :: "Manager \<Rightarrow> Config \<Rightarrow> bool" where
  "kept m ic = (case map_of (m_integrations m) (integrationKey (Name ic)) of
                  Some p \<Rightarrow> p_cfg p = ic | None \<Rightarrow> False)"

text \<open>\<^verbatim>\<open>ic.NewIntegration\<close> succeeds.\<close>

definition constructible :: "env \<Rightarrow> Config \<Rightarrow> bool" where
  "constructible en ic = (case NewIntegration en ic of Inr i \<Rightarrow> True | Inl e \<Rightarrow> False)"

text \<open>The scrape sub-steps of the third loop ran for the process registered under \<open>k\<close>: when
  the process is to be scraped, its generated instance configuration was validated and, if
  valid, handed to the instance manager right after, with the outcome the instance manager
  gives; when it is not to be scraped, its instance configuration was deleted.\<close>

definition scrape_steps ::
    "env \<Rightarrow> ManagerConfig \<Rightarrow> string \<Rightarrow> integrationProcess \<Rightarrow> event list \<Rightarrow> bool" where
  "scrape_steps en c k p evs =
     (if should_collect c p then
        (case validator en (instanceConfigForIntegration en (p_cfg p) (p_i p) c) of
           Inl e \<Rightarrow> ValidatorCall k False \<in> set evs
         | Inr v \<Rightarrow> sublist [ValidatorCall k True, IM_ApplyConfig v (im_ApplyConfig en v = None)] evs)
      else IM_DeleteConfig k \<in> set evs)"

text \<open>A scrape sub-step of the process fails: the process is to be scraped and either the
  validation of its instance configuration or the instance manager's apply returns an
  error.\<close>

definition scrape_fails :: "env \<Rightarrow> ManagerConfig \<Rightarrow> integrationProcess \<Rightarrow> bool" where
  "scrape_fails en c p =
     (should_collect c p
      \<and> (case validator en (instanceConfigForIntegration en (p_cfg p) (p_i p) c) of
           Inl e \<Rightarrow> True | Inr v \<Rightarrow> im_ApplyConfig en v \<noteq> None))"

text \<open>The cancellation of the process registered under a key, if there is one.\<close>

definition stop_events :: "Manager \<Rightarrow> string \<Rightarrow> event list" where
  "stop_events m key = (case map_of (m_integrations m) key of Some p \<Rightarrow> [ProcStop p] | None \<Rightarrow> [])"

text \<open>Events that neither start nor stop a process nor construct a worker.\<close>

definition neutral :: "event \<Rightarrow> bool" where
  "neutral e = (case e of ProcStop p \<Rightarrow> False | GoRun p \<Rightarrow> False | NewIntegrationCall ic ok \<Rightarrow> False
                | _ \<Rightarrow> True)"





text \<open>Every registered process was built from an entry of the stored configuration.\<close>

definition from_stored :: "Manager \<Rightarrow> bool" where
  "from_stored m = list_all (\<lambda>kp. p_cfg (snd kp) \<in> set (Integrations (m_cfg m))) (m_integrations m)"

subsection \<open>Concrete workers and collaborators\<close>

text \<open>
  Inputs on which the statements are evaluated: workers named by \<open>worker\<close> with
  default common settings, collaborators \<open>env0\<close> whose constructor rejects the settings
  \<^verbatim>\<open>bad\<close> and builds a worker without metrics handler for the settings \<^verbatim>\<open>nohandler\<close>,
  and the managers obtained from the empty one by applying a configuration with worker
  \<open>A\<close> (\<open>started\<close>), then one with changed settings for \<open>A\<close> (\<open>restarted\<close>).
\<close>

definition common0 :: CommonConfig where
  "common0 = \<lparr>Enabled = True, ScrapeIntegration = None, ScrapeInterval = 0, ScrapeTimeout = 0,
              RelabelConfigs = [], MetricRelabelConfigs = [], WALTruncateFrequency = 0\<rparr>"

definition worker :: "string \<Rightarrow> string \<Rightarrow> Config" where
  "worker n s = \<lparr>Name = n, Common = common0, Settings = s\<rparr>"

definition integration0 :: Integration where
  "integration0 = \<lparr>ScrapeConfigs = [\<lparr>JobName = ''agent'', MetricsPath = ''/metrics''\<rparr>],
                   MetricsHandlerErr = None\<rparr>"

definition procA :: integrationProcess where
  "procA = \<lparr>p_id = 0, p_cfg = worker ''A'' ''v1'', p_i = integration0\<rparr>"

definition env0 :: env where
  "env0 = \<lparr>hostname = ''host'',
           NewIntegration = (\<lambda>c. if Settings c = ''bad'' then Inl (Other ''invalid settings'')
                                  else if Settings c = ''nohandler''
                                  then Inr (integration0\<lparr>MetricsHandlerErr := Some (Other ''no handler'')\<rparr>)
                                  else Inr integration0),
           validator = Inr,
           im_ApplyConfig = (\<lambda>_. None),
           DefaultConfig = \<lparr>IC_Name = [], IC_ScrapeConfigs = [], IC_RemoteWrite = [],
                             IC_WALTruncateFrequency = 60\<rparr>\<rparr>"

text \<open>The same collaborators with an instance manager that rejects every configuration.\<close>

definition env1 :: env where
  "env1 = env0\<lparr>im_ApplyConfig := (\<lambda>_. Some (Other ''apply failed''))\<rparr>"

definition config0 :: "Config list \<Rightarrow> ManagerConfig" where
  "config0 ws = zeroManagerConfig\<lparr>ScrapeIntegrations := True, Integrations := ws\<rparr>"

definition started :: Manager where
  "started = snd (ApplyConfig env0 (config0 [worker ''A'' ''v1'']) emptyManager)"

definition restarted :: Manager where
  "restarted = snd (ApplyConfig env0 (config0 [worker ''A'' ''v2'']) started)"

definition unscrapable :: Manager where
  "unscrapable = snd (ApplyConfig env0 (config0 [worker ''A'' ''nohandler'']) emptyManager)"

definition procN :: integrationProcess where
  "procN = \<lparr>p_id = 0, p_cfg = worker ''A'' ''nohandler'',
            p_i = integration0\<lparr>MetricsHandlerErr := Some (Other ''no handler'')\<rparr>\<rparr>"

definition procA2 :: integrationProcess where
  "procA2 = \<lparr>p_id = 1, p_cfg = worker ''A'' ''v2'', p_i = integration0\<rparr>"

section \<open>Basic facts\<close>

lemma emit_simps [simp]:
  "events (emit es m) = events m @ es"
  "m_cfg (emit es m) = m_cfg m"
  "m_done (emit es m) = m_done m"
  "m_wg (emit es m) = m_wg m"
  "m_integrations (emit es m) = m_integrations m"
  "next_pid (emit es m) = next_pid m"
  "abnormalExits (emit es m) = abnormalExits m"
  by (simp_all add: emit_def)

lemma emitted_self [simp]: "emitted m m = []"
  by (simp add: emitted_def)

lemma emitted_app: "events m' = events m @ es \<Longrightarrow> emitted m m' = es"
  by (simp add: emitted_def)

lemma instanceBackoff_simps [simp]:
  "events (instanceBackoff c e m) = events m @ [CounterInc (Name c),
           LogError ''integration stopped abnormally, restarting after backoff'' (Name c) e,
           Sleep (IntegrationRestartBackoff (m_cfg m))]"
  "m_cfg (instanceBackoff c e m) = m_cfg m"
  "m_wg (instanceBackoff c e m) = m_wg m"
  "m_done (instanceBackoff c e m) = m_done m"
  "m_integrations (instanceBackoff c e m) = m_integrations m"
  "next_pid (instanceBackoff c e m) = next_pid m"
  "abnormalExits (instanceBackoff c e m) = (abnormalExits m)(Name c := Suc (abnormalExits m (Name c)))"
  by (simp_all add: instanceBackoff_def)

section \<open>The run loop: restart, cancellation, panic\<close>

lemma for_loop_fails:
  "for_loop p (fails ss @ rest) m = for_loop p rest (fold (retry p) ss m)"
  by (induction ss arbitrary: m) (simp_all add: fails_def retry_def)

lemma retry_frame [simp]:
  "m_cfg (fold (retry p) ss m) = m_cfg m"
  "m_wg (fold (retry p) ss m) = m_wg m"
  "m_done (fold (retry p) ss m) = m_done m"
  "m_integrations (fold (retry p) ss m) = m_integrations m"
  "next_pid (fold (retry p) ss m) = next_pid m"
  by (induction ss arbitrary: m) (simp_all add: retry_def)

lemma backoff_events_cfg: "m_cfg m' = m_cfg m \<Longrightarrow> backoff_events p m' = backoff_events p m"
  by (rule ext) (simp add: backoff_events_def)

lemma retry_events:
  "events (fold (retry p) ss m) = events m @ concat (map (backoff_events p m) ss)"
proof (induction ss arbitrary: m)
  case Nil
  show ?case by simp
next
  case (Cons s ss)
  have "backoff_events p (retry p s m) = backoff_events p m"
    by (rule backoff_events_cfg) (simp add: retry_def)
  with Cons [of "retry p s m"] show ?case
    by (simp add: retry_def backoff_events_def)
qed

lemma retry_counter:
  "abnormalExits (fold (retry p) ss m) x =
     abnormalExits m x + (if x = Name (p_cfg p) then length ss else 0)"
  by (induction ss arbitrary: m) (simp_all add: retry_def)

lemma count_backoff_events:
  "length (filter is_run (concat (map (backoff_events p m) ss))) = length ss"
  "length (filter is_sleep (concat (map (backoff_events p m) ss))) = length ss"
  "length (filter is_inc (concat (map (backoff_events p m) ss))) = length ss"
  by (induction ss) (simp_all add: backoff_events_def is_run_def is_sleep_def is_inc_def)

text \<open>
  Claim C3. When the worker's \<^verbatim>\<open>Run\<close> fails \<open>N\<close> times in a row with errors other than
  the cancellation sentinel, each failure is followed by one call of the backoff callback
  with the worker's configuration and that error, and \<^verbatim>\<open>Run\<close> is invoked again: the loop
  has slept \<open>N\<close> times and invoked \<^verbatim>\<open>Run\<close> \<open>N + 1\<close> times. If that invocation returns
  exactly the cancellation sentinel, the loop logs the stop and ends with no further
  backoff; while it has not returned, the goroutine is still inside \<^verbatim>\<open>Run\<close>.
\<close>

theorem run_loop_retries_until_canceled:
  "(let (g, m') = Run p (fails ss @ Returns (Some Canceled) # rest) m
    in g = Returned
     \<and> emitted m m' = concat (map (backoff_events p m) ss)
                        @ [IRun (p_id p), LogInfo ''stopped integration'' (Name (p_cfg p))]
     \<and> length (filter is_sleep (emitted m m')) = length ss
     \<and> length (filter is_run (emitted m m')) = length ss + 1)
   \<and> (let (g, m') = Run p (fails ss) m
      in g = InRun
       \<and> emitted m m' = concat (map (backoff_events p m) ss) @ [IRun (p_id p)]
       \<and> length (filter is_sleep (emitted m m')) = length ss
       \<and> length (filter is_run (emitted m m')) = length ss + 1)"
proof -
  let ?m0 = "m\<lparr>m_wg := m_wg m + 1\<rparr>"
  have be: "backoff_events p ?m0 = backoff_events p m"
    by (rule backoff_events_cfg) simp
  have l2: "for_loop p (fails ss) ?m0 = for_loop p [] (fold (retry p) ss ?m0)"
    using for_loop_fails [of p ss "[]" ?m0] by simp
  show ?thesis
    unfolding Run_def for_loop_fails l2
    by (simp add: deferred_wg_Done_def deferred_recover_def emitted_def retry_events be
        count_backoff_events is_run_def is_sleep_def)
qed


lemma for_loop_never_nil_vs_canceled:
  "for_loop p (pre @ Returns None # rest) m = for_loop p (pre @ Returns (Some Canceled) # rest') m"
proof (induction pre arbitrary: m)
  case Nil
  show ?case by simp
next
  case (Cons r pre)
  show ?case
  proof (cases r)
    case (Returns e)
    then show ?thesis using Cons by simp
  next
    case (Panics v)
    then show ?thesis by simp
  qed
qed

text \<open>
  Claim C10. A \<^verbatim>\<open>nil\<close> result of the worker's \<^verbatim>\<open>Run\<close> is handled exactly like the
  cancellation sentinel, whatever came before it and whatever would come after: the loop
  logs the stop and ends, with no backoff, no further invocation and no increment of the
  abnormal-exit counter.
\<close>

theorem run_loop_nil_like_canceled:
  "Run p (pre @ Returns None # rest) m = Run p (pre @ Returns (Some Canceled) # rest') m
   \<and> (let (g, m') = Run p (fails ss @ Returns None # rest) m
      in g = Returned
       \<and> emitted m m' = concat (map (backoff_events p m) ss)
                          @ [IRun (p_id p), LogInfo ''stopped integration'' (Name (p_cfg p))]
       \<and> length (filter is_sleep (emitted m m')) = length ss
       \<and> length (filter is_run (emitted m m')) = length ss + 1
       \<and> abnormalExits m' (Name (p_cfg p)) = abnormalExits m (Name (p_cfg p)) + length ss
       \<and> m_wg m' = m_wg m)"
proof -
  let ?m0 = "m\<lparr>m_wg := m_wg m + 1\<rparr>"
  have be: "backoff_events p ?m0 = backoff_events p m"
    by (rule backoff_events_cfg) simp
  have 1: "Run p (pre @ Returns None # rest) m = Run p (pre @ Returns (Some Canceled) # rest') m"
    unfolding Run_def by (simp only: for_loop_never_nil_vs_canceled [of p pre rest _ rest'])
  have 2: "(let (g, m') = Run p (fails ss @ Returns None # rest) m
      in g = Returned
       \<and> emitted m m' = concat (map (backoff_events p m) ss)
                          @ [IRun (p_id p), LogInfo ''stopped integration'' (Name (p_cfg p))]
       \<and> length (filter is_sleep (emitted m m')) = length ss
       \<and> length (filter is_run (emitted m m')) = length ss + 1
       \<and> abnormalExits m' (Name (p_cfg p)) = abnormalExits m (Name (p_cfg p)) + length ss
       \<and> m_wg m' = m_wg m)"
    unfolding Run_def for_loop_fails
    by (simp add: deferred_wg_Done_def deferred_recover_def emitted_def retry_events be
        count_backoff_events is_run_def is_sleep_def retry_counter)
  from 1 2 show ?thesis by (rule conjI)
qed

lemma recover_not_panicking: "fst (deferred_recover p gm) \<noteq> Panicking r"
  by (cases gm; cases "fst gm") (auto simp: deferred_recover_def)

text \<open>
  Claim C5. A panic inside the worker's \<^verbatim>\<open>Run\<close> is recovered and logged by the run loop;
  the loop ends there, with no backoff for it and no further invocation of \<^verbatim>\<open>Run\<close>, the
  wait group is released, and whatever the worker does, the goroutine never ends in a
  panic.
\<close>

theorem run_loop_contains_panic:
  "(let (g, m') = Run p (fails ss @ Panics r # rest) m
    in g = Returned
     \<and> emitted m m' = concat (map (backoff_events p m) ss)
                        @ [IRun (p_id p),
                           LogError ''integration has panicked. THIS IS A BUG!''
                             (Name (p_cfg p)) (Some (Other r))]
     \<and> length (filter is_sleep (emitted m m')) = length ss
     \<and> length (filter is_run (emitted m m')) = length ss + 1
     \<and> m_wg m' = m_wg m)
   \<and> fst (Run p rs m) \<noteq> Panicking r'"
proof -
  let ?m0 = "m\<lparr>m_wg := m_wg m + 1\<rparr>"
  have be: "backoff_events p ?m0 = backoff_events p m"
    by (rule backoff_events_cfg) simp
  have 1: "(let (g, m') = Run p (fails ss @ Panics r # rest) m
    in g = Returned
     \<and> emitted m m' = concat (map (backoff_events p m) ss)
                        @ [IRun (p_id p),
                           LogError ''integration has panicked. THIS IS A BUG!''
                             (Name (p_cfg p)) (Some (Other r))]
     \<and> length (filter is_sleep (emitted m m')) = length ss
     \<and> length (filter is_run (emitted m m')) = length ss + 1
     \<and> m_wg m' = m_wg m)"
    unfolding Run_def for_loop_fails
    by (simp add: deferred_wg_Done_def deferred_recover_def emitted_def retry_events be
        count_backoff_events is_run_def is_sleep_def)
  have 2: "fst (Run p rs m) \<noteq> Panicking r'"
    unfolding Run_def by (rule recover_not_panicking)
  from 1 2 show ?thesis by (rule conjI)
qed

lemma for_loop_cfg [simp]: "m_cfg (snd (for_loop p rs m)) = m_cfg m"
  by (induction p rs m rule: for_loop.induct) simp_all

lemma failure_Returns [simp]: "failure (Returns e) = (e \<noteq> None \<and> e \<noteq> Some Canceled)"
  by (auto simp: failure_def split: option.splits err.splits)

lemma failure_Panics [simp]: "failure (Panics r) = False"
  by (simp add: failure_def)

lemma for_loop_counter:
  "abnormalExits (snd (for_loop p rs m)) x =
     abnormalExits m x + (if x = Name (p_cfg p) then length (takeWhile failure rs) else 0)"
  by (induction p rs m rule: for_loop.induct) auto

lemma inc_or_sleep_simps [simp]:
  "inc_or_sleep (CounterInc n) = True"
  "inc_or_sleep (Sleep d) = True"
  "inc_or_sleep (IRun k) = False"
  "inc_or_sleep (LogError a b c) = False"
  "inc_or_sleep (LogInfo a b) = False"
  by (simp_all add: inc_or_sleep_def is_inc_def is_sleep_def)

lemma for_loop_events:
  "\<exists>es. events (snd (for_loop p rs m)) = events m @ es
     \<and> filter inc_or_sleep es =
         concat (replicate (length (takeWhile failure rs))
                   [CounterInc (Name (p_cfg p)), Sleep (IntegrationRestartBackoff (m_cfg m))])"
proof (induction p rs m rule: for_loop.induct)
  case (1 p m)
  show ?case by simp
next
  case (2 p r rs m)
  show ?case by simp
next
  case (3 p e rs m)
  show ?case
  proof (cases "e \<noteq> None \<and> e \<noteq> Some Canceled")
    case True
    from 3 True obtain es where es:
      "events (snd (for_loop p rs (instanceBackoff (p_cfg p) e (emit [IRun (p_id p)] m))))
         = events (instanceBackoff (p_cfg p) e (emit [IRun (p_id p)] m)) @ es"
      "filter inc_or_sleep es =
         concat (replicate (length (takeWhile failure rs))
                   [CounterInc (Name (p_cfg p)), Sleep (IntegrationRestartBackoff (m_cfg m))])"
      by auto
    show ?thesis
      using True es by simp
  next
    case False
    show ?thesis using False by auto
  qed
qed

text \<open>
  Claim C8, amended. Every result of the worker's \<^verbatim>\<open>Run\<close> that is a non-nil error other
  than the cancellation sentinel increments the abnormal-exit counter of the worker's name
  exactly once, and the increment comes before the backoff sleep. A panic inside
  \<^verbatim>\<open>Run\<close>, like a \<^verbatim>\<open>nil\<close> or cancelled result, ends the loop without an increment and
  without a sleep: the counter has grown by the number of failures that came first.
\<close>

theorem abnormal_exits_counted_per_restart:
  "(let (g, m') = Run p rs m; n = length (takeWhile failure rs)
    in abnormalExits m' (Name (p_cfg p)) = abnormalExits m (Name (p_cfg p)) + n
     \<and> filter inc_or_sleep (emitted m m') =
         concat (replicate n [CounterInc (Name (p_cfg p)),
                              Sleep (IntegrationRestartBackoff (m_cfg m))]))"
proof -
  let ?m0 = "m\<lparr>m_wg := m_wg m + 1\<rparr>"
  obtain g m1 where gm: "for_loop p rs ?m0 = (g, m1)" by (cases "for_loop p rs ?m0")
  from for_loop_events [of p rs ?m0] gm obtain es where es:
    "events m1 = events m @ es"
    "filter inc_or_sleep es = concat (replicate (length (takeWhile failure rs))
                   [CounterInc (Name (p_cfg p)), Sleep (IntegrationRestartBackoff (m_cfg m))])"
    by auto
  from for_loop_counter [of p rs ?m0 "Name (p_cfg p)"] gm
  have c: "abnormalExits m1 (Name (p_cfg p)) = abnormalExits m (Name (p_cfg p)) + length (takeWhile failure rs)"
    by simp
  show ?thesis
    unfolding Run_def gm using es c
    by (cases g) (simp_all add: deferred_wg_Done_def deferred_recover_def emitted_def)
qed

theorem abnormal_exits_counted_per_restart_witness:
  "abnormalExits (snd (Run procA (fails [''e1'', ''e2''] @ [Panics ''boom'']) emptyManager)) ''A''
     = 2"
  using abnormal_exits_counted_per_restart
          [of procA "fails [''e1'', ''e2''] @ [Panics ''boom'']" emptyManager]
  by (simp add: split_beta Let_def procA_def worker_def emptyManager_def fails_def)

text \<open>
  The claim as stated fails for a panic: the loop of worker \<open>A\<close> ends on it with the
  counter where it was, and neither increments nor sleeps.
\<close>

theorem abnormal_exits_panic_counterexample:
  "abnormalExits (snd (Run procA [Panics ''boom''] emptyManager)) ''A''
     \<noteq> abnormalExits emptyManager ''A'' + 1
   \<and> emitted emptyManager (snd (Run procA [Panics ''boom''] emptyManager)) =
        [IRun 0, LogError ''integration has panicked. THIS IS A BUG!'' ''A''
                   (Some (Other ''boom''))]"
  by (simp add: Run_def deferred_wg_Done_def deferred_recover_def emitted_def emptyManager_def
      procA_def worker_def)

theorem run_loop_retries_until_canceled_witness:
  "fst (Run procA (fails [''e1'', ''e2''] @ [Returns (Some Canceled)]) emptyManager) = Returned
   \<and> length (filter is_sleep (emitted emptyManager
        (snd (Run procA (fails [''e1'', ''e2''] @ [Returns (Some Canceled)]) emptyManager)))) = 2
   \<and> length (filter is_run (emitted emptyManager
        (snd (Run procA (fails [''e1'', ''e2''] @ [Returns (Some Canceled)]) emptyManager)))) = 3"
  using run_loop_retries_until_canceled [of procA "[''e1'', ''e2'']" "[]" emptyManager]
  by (simp add: split_beta backoff_events_def is_sleep_def is_run_def)

theorem run_loop_nil_like_canceled_witness:
  "Run procA [Returns None] emptyManager = Run procA [Returns (Some Canceled)] emptyManager
   \<and> fst (Run procA [Returns None] emptyManager) = Returned
   \<and> emitted emptyManager (snd (Run procA [Returns None] emptyManager)) =
        [IRun 0, LogInfo ''stopped integration'' ''A'']"
proof -
  note w = run_loop_nil_like_canceled [of procA "[]" "[]" emptyManager "[]" "[]"]
  have 1: "Run procA [Returns None] emptyManager = Run procA [Returns (Some Canceled)] emptyManager"
    using w [THEN conjunct1] by simp
  have 2: "fst (Run procA [Returns None] emptyManager) = Returned
      \<and> emitted emptyManager (snd (Run procA [Returns None] emptyManager)) =
           [IRun 0, LogInfo ''stopped integration'' ''A'']"
    using w [THEN conjunct2] by (simp add: split_beta fails_def procA_def worker_def)
  from 1 2 show ?thesis by (rule conjI)
qed

theorem run_loop_contains_panic_witness:
  "fst (Run procA (fails [''e1''] @ [Panics ''boom'']) emptyManager) = Returned
   \<and> length (filter is_run (emitted emptyManager
        (snd (Run procA (fails [''e1''] @ [Panics ''boom'']) emptyManager)))) = 2
   \<and> length (filter is_sleep (emitted emptyManager
        (snd (Run procA (fails [''e1''] @ [Panics ''boom'']) emptyManager)))) = 1"
  using run_loop_contains_panic [of procA "[''e1'']" "''boom''" "[]" emptyManager "[]" "''x''"]
  by (simp add: split_beta backoff_events_def is_sleep_def is_run_def)

section \<open>The projection\<close>

lemma split_slash_nonempty [simp]: "split_slash s \<noteq> []"
  by (induction s) (auto split: list.splits)

lemma split_slash_plain: "CHR ''/'' \<notin> set a \<Longrightarrow> split_slash a = [a]"
  by (induction a) auto

lemma split_slash_app: "CHR ''/'' \<notin> set a \<Longrightarrow> split_slash (a @ CHR ''/'' # b) = a # split_slash b"
  by (induction a) auto

lemma split_join:
  "segs \<noteq> [] \<Longrightarrow> \<forall>s\<in>set segs. CHR ''/'' \<notin> set s \<Longrightarrow> split_slash (join_slash segs) = segs"
proof (induction segs rule: join_slash.induct)
  case 1
  then show ?case by simp
next
  case (2 x)
  then show ?case by (simp add: split_slash_plain)
next
  case (3 x y ys)
  then show ?case by (simp add: split_slash_app)
qed

lemma clean_elems_plain:
  "\<forall>s\<in>set es. plain_segment s \<Longrightarrow> clean_elems r out dd es = out @ es"
  by (induction es arbitrary: out) (auto simp: plain_segment_def)

lemma join_slash_Cons: "ys \<noteq> [] \<Longrightarrow> join_slash (x # ys) = x @ CHR ''/'' # join_slash ys"
  by (cases ys) simp_all

lemma join_slash_nonempty: "segs \<noteq> [] \<Longrightarrow> \<forall>s\<in>set segs. s \<noteq> [] \<Longrightarrow> join_slash segs \<noteq> []"
  by (induction segs rule: join_slash.induct) auto

lemma path_Join_plain:
  assumes n: "plain_segment n" and ne: "segs \<noteq> []" and pl: "\<forall>s\<in>set segs. plain_segment s"
  shows "path_Join [''/integrations'', n, join_slash segs] = ''/integrations/'' @ n @ ''/'' @ join_slash segs"
    and "path_Join [''/integrations'', n, CHR ''/'' # join_slash segs] = ''/integrations/'' @ n @ ''/'' @ join_slash segs"
proof -
  have ns: "\<forall>s\<in>set segs. CHR ''/'' \<notin> set s" and nn: "CHR ''/'' \<notin> set n" and n0: "n \<noteq> []"
    using n pl by (auto simp: plain_segment_def)
  have j0: "join_slash segs \<noteq> []"
    using ne pl by (intro join_slash_nonempty) (auto simp: plain_segment_def)
  have sp: "split_slash (join_slash segs) = segs"
    using ne ns by (rule split_join)
  have i: "CHR ''/'' \<notin> set ''integrations''" by simp
  have s1: "split_slash (''/integrations/'' @ n @ ''/'' @ join_slash segs)
        = [] # ''integrations'' # n # segs"
    using split_slash_app [OF i, of "n @ ''/'' @ join_slash segs"]
          split_slash_app [OF nn, of "join_slash segs"] sp
    by simp
  have s2: "split_slash (''/integrations/'' @ n @ ''/'' @ ''/'' @ join_slash segs)
        = [] # ''integrations'' # n # [] # segs"
    using split_slash_app [OF i, of "n @ ''/'' @ ''/'' @ join_slash segs"]
          split_slash_app [OF nn, of "''/'' @ join_slash segs"] sp
    by simp
  have pi: "plain_segment ''integrations''" by (simp add: plain_segment_def)
  have c1: "clean_elems True [] 0 ([] # ''integrations'' # n # segs) = ''integrations'' # n # segs"
    using clean_elems_plain [of "''integrations'' # n # segs" True "[]" 0] pi n pl by simp
  have c2: "clean_elems True [] 0 ([] # ''integrations'' # n # [] # segs) = ''integrations'' # n # segs"
    using clean_elems_plain [of "segs" True "[''integrations'', n]" 0] pi n pl
    by (simp add: plain_segment_def)
  have jj: "join_slash (''integrations'' # n # segs) = ''integrations/'' @ n @ ''/'' @ join_slash segs"
    using ne by (simp add: join_slash_Cons)
  show "path_Join [''/integrations'', n, join_slash segs] = ''/integrations/'' @ n @ ''/'' @ join_slash segs"
    using n0 j0 s1 c1 jj by (simp add: path_Join_def path_Clean_def Let_def)
  show "path_Join [''/integrations'', n, CHR ''/'' # join_slash segs] = ''/integrations/'' @ n @ ''/'' @ join_slash segs"
    using n0 j0 s2 c2 jj by (simp add: path_Join_def path_Clean_def Let_def)
qed

lemma IC_ScrapeConfigs_projection:
  "IC_ScrapeConfigs (instanceConfigForIntegration en icfg i c) =
     map (\<lambda>isc. \<lparr>SC_JobName = ''integrations/'' @ JobName isc,
                         SC_MetricsPath = path_Join [''/integrations'', Name icfg, MetricsPath isc],
                         SC_Scheme = (if ServerUsingTLS c then ''https'' else ''http''),
                         SC_HonorLabels = False,
                         SC_HonorTimestamps = True,
                         SC_ScrapeInterval = ScrapeInterval (Common icfg),
                         SC_ScrapeTimeout = ScrapeTimeout (Common icfg),
                         SC_ServiceDiscoveryConfigs = scrapeServiceDiscovery en c,
                         SC_RelabelConfigs = DefaultRelabelConfigs c (hostname en) @ RelabelConfigs (Common icfg),
                         SC_MetricRelabelConfigs = MetricRelabelConfigs (Common icfg),
                         SC_HTTPClientTLSConfig = (if ServerUsingTLS c then Some (TLSConfig c) else None)\<rparr>)
                (ScrapeConfigs i)"
  by (simp add: instanceConfigForIntegration_def Let_def)

text \<open>
  Claim C7, amended. Every declared scrape target is projected, in order, to a scrape
  configuration whose job name is \<^verbatim>\<open>integrations/\<close> followed by the declared job name
  (the worker's own name takes no part in it) and whose metrics path is
  \<^verbatim>\<open>path.Join("/integrations", name, declared path)\<close>; for a worker name that is a plain
  path element and a declared path made of plain elements, with or without a leading
  slash, that is \<^verbatim>\<open>/integrations/<name>/<elements>\<close>.
\<close>

theorem projection_job_name_and_path:
  "(let cfgs = IC_ScrapeConfigs (instanceConfigForIntegration en icfg i c)
    in length cfgs = length (ScrapeConfigs i)
     \<and> (\<forall>k < length (ScrapeConfigs i).
          SC_JobName (cfgs ! k) = ''integrations/'' @ JobName (ScrapeConfigs i ! k)
        \<and> SC_MetricsPath (cfgs ! k) =
            path_Join [''/integrations'', Name icfg, MetricsPath (ScrapeConfigs i ! k)]
        \<and> (\<forall>segs. plain_segment (Name icfg) \<and> segs \<noteq> [] \<and> list_all plain_segment segs
               \<and> (MetricsPath (ScrapeConfigs i ! k) = join_slash segs
                  \<or> MetricsPath (ScrapeConfigs i ! k) = CHR ''/'' # join_slash segs)
             \<longrightarrow> SC_MetricsPath (cfgs ! k) =
                   ''/integrations/'' @ Name icfg @ ''/'' @ join_slash segs)))"
  unfolding Let_def IC_ScrapeConfigs_projection
  by (auto simp: list_all_iff path_Join_plain)

theorem projection_job_name_and_path_witness:
  "map SC_JobName (IC_ScrapeConfigs (instanceConfigForIntegration env0 (worker ''A'' ''v1'') integration0 (config0 [worker ''A'' ''v1'']))) = [''integrations/agent'']
  \<and> map SC_MetricsPath (IC_ScrapeConfigs (instanceConfigForIntegration env0 (worker ''A'' ''v1'') integration0 (config0 [worker ''A'' ''v1'']))) = [''/integrations/A/metrics'']"
proof -
  let ?cfgs = "IC_ScrapeConfigs (instanceConfigForIntegration env0 (worker ''A'' ''v1'') integration0 (config0 [worker ''A'' ''v1'']))"
  note w = projection_job_name_and_path [of env0 "worker ''A'' ''v1''" integration0 "config0 [worker ''A'' ''v1'']", unfolded Let_def]
  have len: "length ?cfgs = 1" using w by (simp add: integration0_def)
  have k: "(0::nat) < length (ScrapeConfigs integration0)" by (simp add: integration0_def)
  from w have a: "SC_JobName (?cfgs ! 0) = ''integrations/agent''"
    using k by (simp add: integration0_def)
  have pl: "plain_segment (Name (worker ''A'' ''v1'')) \<and> [''metrics''] \<noteq> [] \<and> list_all plain_segment [''metrics'']
     \<and> (MetricsPath (ScrapeConfigs integration0 ! 0) = join_slash [''metrics'']
          \<or> MetricsPath (ScrapeConfigs integration0 ! 0) = CHR ''/'' # join_slash [''metrics''])"
    by (simp add: plain_segment_def worker_def integration0_def)
  from w k pl have b: "SC_MetricsPath (?cfgs ! 0) = ''/integrations/'' @ Name (worker ''A'' ''v1'') @ ''/'' @ join_slash [''metrics'']"
    by blast
  from len obtain x where x: "?cfgs = [x]" by (cases ?cfgs) auto
  show ?thesis using a b unfolding x by (simp add: worker_def)
qed

text \<open>
  The claim as stated fails: worker \<open>A\<close> declaring the job \<open>B\<close> at \<^verbatim>\<open>/metrics\<close> gets the
  job name \<^verbatim>\<open>integrations/B\<close>, which does not mention the worker, and the path
  \<^verbatim>\<open>/integrations/A/metrics\<close>, not the concatenation with the declared path.
\<close>

theorem projection_job_name_counterexample:
  "map SC_JobName (IC_ScrapeConfigs (instanceConfigForIntegration env0 (worker ''A'' ''v1'')
       \<lparr>ScrapeConfigs = [\<lparr>JobName = ''B'', MetricsPath = ''/metrics''\<rparr>], MetricsHandlerErr = None\<rparr>
       (config0 [worker ''A'' ''v1'']))) = [''integrations/B'']
   \<and> \<not> prefix (integrationKey ''A'') ''integrations/B''
   \<and> ''integrations/B'' \<noteq> ''integrations/A''
   \<and> map SC_MetricsPath (IC_ScrapeConfigs (instanceConfigForIntegration env0 (worker ''A'' ''v1'')
       \<lparr>ScrapeConfigs = [\<lparr>JobName = ''B'', MetricsPath = ''/metrics''\<rparr>], MetricsHandlerErr = None\<rparr>
       (config0 [worker ''A'' ''v1'']))) = [''/integrations/A/metrics'']
   \<and> ''/integrations/A/metrics'' \<noteq> ''/integrations/'' @ ''A'' @ ''/'' @ ''/metrics''"
  by (simp add: IC_ScrapeConfigs_projection worker_def integrationKey_def path_Join_def path_Clean_def)


section \<open>ApplyConfig on a stopped manager\<close>

lemma Stop_simps [simp]:
  "m_done (Stop m) = True" "m_cfg (Stop m) = m_cfg m" "m_integrations (Stop m) = m_integrations m"
  "events (Stop m) = events m"
  by (simp_all add: Stop_def)

text \<open>
  Claim C4, amended. A call of \<^verbatim>\<open>ApplyConfig\<close> on a stopped manager does no work at all:
  the manager, with its registry, stored configuration and record of effects, is returned
  as it was. The call fails with the error "Manager already stopped" when the given
  configuration differs from the stored one, and returns \<^verbatim>\<open>nil\<close> when it is
  structurally equal to the stored one, because that comparison comes first.
\<close>

theorem stopped_manager_does_no_work:
  "m_done (Stop m0)
   \<and> (m_done m \<longrightarrow>
        ApplyConfig en c m =
          (if CompareYAML (m_cfg m) c then None else Some (Other ''Manager already stopped''), m))"
  by (simp add: ApplyConfig_def)

lemma ApplyConfig_stores_cfg:
  "\<not> m_done m \<Longrightarrow> m_cfg (snd (ApplyConfig en c m)) = c"
  by (simp add: ApplyConfig_def CompareYAML_def split_beta Let_def)

lemma ApplyConfig_same [simp]: "ApplyConfig en (m_cfg m) m = (None, m)"
  by (simp add: ApplyConfig_def CompareYAML_def)

lemmas eval_defs = ApplyConfig_def CompareYAML_def reconcile_entry_def sweep_entry_def reapply_entry_def
  config0_def zeroManagerConfig_def emptyManager_def worker_def env0_def integrationKey_def Let_def
  emit_def

lemma started_registry: "m_integrations started = [(''integration/A'', procA)]"
  by (simp add: started_def eval_defs procA_def)

lemma restarted_registry:
  "m_integrations restarted = [(''integration/A'', \<lparr>p_id = 1, p_cfg = worker ''A'' ''v2'', p_i = integration0\<rparr>)]"
  unfolding restarted_def
  by (simp add: started_def eval_defs procA_def)

lemma unscrapable_registry:
  "m_integrations unscrapable = [(''integration/A'', \<lparr>p_id = 0, p_cfg = worker ''A'' ''nohandler'',
       p_i = integration0\<lparr>MetricsHandlerErr := Some (Other ''no handler'')\<rparr>\<rparr>)]"
  by (simp add: unscrapable_def eval_defs)

theorem stopped_manager_does_no_work_witness:
  "ApplyConfig env0 (config0 []) (Stop started) = (Some (Other ''Manager already stopped''), Stop started)"
proof -
  have c: "m_cfg (Stop started) = config0 [worker ''A'' ''v1'']"
    unfolding started_def Stop_simps by (rule ApplyConfig_stores_cfg) (simp add: emptyManager_def)
  have ne: "\<not> CompareYAML (m_cfg (Stop started)) (config0 [])"
    unfolding c by (simp add: CompareYAML_def config0_def zeroManagerConfig_def)
  have d: "m_done (Stop started)" by simp
  show ?thesis
    using stopped_manager_does_no_work [of emptyManager "Stop started" env0 "config0 []"] d ne by simp
qed

text \<open>
  The claim as stated fails: a manager started with worker \<open>A\<close> and then stopped accepts
  the configuration it already holds and returns no error.
\<close>

theorem stopped_manager_same_config_counterexample:
  "m_done (Stop started) \<and> fst (ApplyConfig env0 (config0 [worker ''A'' ''v1'']) (Stop started)) = None"
proof -
  have "m_cfg started = config0 [worker ''A'' ''v1'']"
    unfolding started_def by (rule ApplyConfig_stores_cfg) (simp add: emptyManager_def)
  then have "m_cfg (Stop started) = config0 [worker ''A'' ''v1'']" by simp
  then show ?thesis
    using ApplyConfig_same [of env0 "Stop started"] by simp
qed

section \<open>The handler cache\<close>

lemma cache_ok_wire0: "cache_ok wire0"
  by (simp add: cache_ok_def wire0_def)

lemma cache_okD: "cache_ok w \<Longrightarrow> handlerCache w k = Some e \<Longrightarrow> \<exists>n < made w. hc_handler e = WorkerHandler n"
  by (auto simp: cache_ok_def ran_def)

lemma cache_ok_new_handler: "cache_ok w \<Longrightarrow> cache_ok (snd (new_handler p key w))"
  unfolding cache_ok_def new_handler_def
  by (auto simp: ran_def Let_def less_Suc_eq split: option.splits if_splits)

lemma cache_ok_loadHandler: "cache_ok w \<Longrightarrow> cache_ok (snd (loadHandler m key w))"
proof -
  assume ok: "cache_ok w"
  have del: "cache_ok (w\<lparr>handlerCache := (handlerCache w)(key := None)\<rparr>)"
    using ok unfolding cache_ok_def by (auto simp: ran_def split: if_splits)
  show ?thesis
    using ok del cache_ok_new_handler [OF ok]
    by (auto simp: loadHandler_def split: option.splits)
qed

lemma loadHandler_hit:
  "map_of (m_integrations m) key = Some p \<Longrightarrow> handlerCache w key = Some e \<Longrightarrow> hc_process e = p_id p
   \<Longrightarrow> loadHandler m key w = (hc_handler e, w)"
  by (simp add: loadHandler_def)

lemma loadHandler_miss:
  "map_of (m_integrations m) key = Some p \<Longrightarrow>
   (\<forall>e. handlerCache w key = Some e \<longrightarrow> hc_process e \<noteq> p_id p)
   \<Longrightarrow> loadHandler m key w = new_handler p key w"
  by (auto simp: loadHandler_def split: option.splits)

lemma loadHandler_caches:
  assumes "map_of (m_integrations m) key = Some p" "MetricsHandlerErr (p_i p) = None" "cache_ok w"
  shows "\<exists>n < made (snd (loadHandler m key w)).
           fst (loadHandler m key w) = WorkerHandler n
         \<and> handlerCache (snd (loadHandler m key w)) key = Some \<lparr>hc_handler = WorkerHandler n, hc_process = p_id p\<rparr>"
proof (cases "\<exists>e. handlerCache w key = Some e \<and> hc_process e = p_id p")
  case True
  then obtain e where e: "handlerCache w key = Some e" "hc_process e = p_id p" by blast
  from cache_okD [OF assms(3) e(1)] obtain n where n: "n < made w" "hc_handler e = WorkerHandler n"
    by blast
  have "e = \<lparr>hc_handler = WorkerHandler n, hc_process = p_id p\<rparr>" using e(2) n(2) by simp
  then show ?thesis
    using loadHandler_hit [OF assms(1) e] e n by auto
next
  case False
  then have "loadHandler m key w = new_handler p key w"
    using loadHandler_miss [OF assms(1)] by blast
  then show ?thesis using assms(2) by (simp add: new_handler_def Let_def)
qed

lemma loadHandler_fails:
  assumes reg: "map_of (m_integrations m) key = Some p"
      and e: "MetricsHandlerErr (p_i p) \<noteq> None" and u: "uncached w key p"
  shows "loadHandler m key w = (InternalServiceError, w\<lparr>asked := asked w @ [p_id p]\<rparr>)"
    and "uncached (w\<lparr>asked := asked w @ [p_id p]\<rparr>) key p"
proof -
  have "loadHandler m key w = new_handler p key w"
    using u by (intro loadHandler_miss [OF reg]) (auto simp: uncached_def)
  then show "loadHandler m key w = (InternalServiceError, w\<lparr>asked := asked w @ [p_id p]\<rparr>)"
    using e by (auto simp: new_handler_def)
  show "uncached (w\<lparr>asked := asked w @ [p_id p]\<rparr>) key p"
    using u by (simp add: uncached_def)
qed

text \<open>
  Claim C6, amended. Take a cache as \<^verbatim>\<open>WireAPI\<close> builds it and a registered worker. If
  its \<^verbatim>\<open>MetricsHandler()\<close> succeeds, two consecutive requests resolved against the same
  live process return the same handler, one obtained from the worker, and the second request
  constructs nothing and leaves the cache as it is; a request resolved after the process
  was replaced under the same key asks the new process for a handler and never returns the
  stale one: it returns the newly made handler and caches it with the new process when the
  new worker's \<^verbatim>\<open>MetricsHandler()\<close> succeeds, and the internal-error handler, with the
  cache left as it was, when it fails. If the cache holds no handler for the live process
  and its \<^verbatim>\<open>MetricsHandler()\<close> fails, each of two consecutive requests is answered by the
  internal-error handler, nothing is cached and no handler is made, and the worker is
  asked again on the second request.
\<close>

theorem handler_cache_follows_process:
  assumes reg: "map_of (m_integrations m) key = Some p"
      and ok: "cache_ok w"
  shows "(let (h1, w1) = loadHandler m key w; (h2, w2) = loadHandler m key w1
          in (MetricsHandlerErr (p_i p) = None \<longrightarrow>
                h2 = h1 \<and> w2 = w1 \<and> (\<exists>n. h1 = WorkerHandler n)
              \<and> (\<forall>m' p'. map_of (m_integrations m') key = Some p' \<and> p_id p' \<noteq> p_id p \<longrightarrow>
                   (let (h3, w3) = loadHandler m' key w1
                    in h3 \<noteq> h1 \<and> asked w3 = asked w1 @ [p_id p']
                     \<and> (MetricsHandlerErr (p_i p') = None \<longrightarrow>
                          h3 = WorkerHandler (made w1)
                        \<and> handlerCache w3 key = Some \<lparr>hc_handler = h3, hc_process = p_id p'\<rparr>)
                     \<and> (MetricsHandlerErr (p_i p') \<noteq> None \<longrightarrow>
                          h3 = InternalServiceError
                        \<and> handlerCache w3 = handlerCache w1 \<and> made w3 = made w1))))
           \<and> (MetricsHandlerErr (p_i p) \<noteq> None \<and> uncached w key p \<longrightarrow>
                h1 = InternalServiceError \<and> h2 = InternalServiceError
              \<and> handlerCache w2 = handlerCache w \<and> made w2 = made w
              \<and> asked w2 = asked w @ [p_id p, p_id p]))"
proof (cases "MetricsHandlerErr (p_i p) = None")
  case h: True
  obtain h1 w1 where l1: "loadHandler m key w = (h1, w1)" by (cases "loadHandler m key w")
  from loadHandler_caches [OF reg h ok] l1 obtain n where n:
    "n < made w1" "h1 = WorkerHandler n"
    "handlerCache w1 key = Some \<lparr>hc_handler = WorkerHandler n, hc_process = p_id p\<rparr>"
    by auto
  have l2: "loadHandler m key w1 = (h1, w1)"
    using loadHandler_hit [OF reg n(3)] n(2) by simp
  have repl: "fst (loadHandler m' key w1) \<noteq> h1
                \<and> asked (snd (loadHandler m' key w1)) = asked w1 @ [p_id p']
                \<and> (MetricsHandlerErr (p_i p') = None \<longrightarrow>
                       fst (loadHandler m' key w1) = WorkerHandler (made w1)
                     \<and> handlerCache (snd (loadHandler m' key w1)) key
                         = Some \<lparr>hc_handler = fst (loadHandler m' key w1), hc_process = p_id p'\<rparr>)
                \<and> (MetricsHandlerErr (p_i p') \<noteq> None \<longrightarrow>
                       fst (loadHandler m' key w1) = InternalServiceError
                     \<and> handlerCache (snd (loadHandler m' key w1)) = handlerCache w1
                     \<and> made (snd (loadHandler m' key w1)) = made w1)"
    if r: "map_of (m_integrations m') key = Some p'" "p_id p' \<noteq> p_id p" for m' p'
  proof -
    have "loadHandler m' key w1 = new_handler p' key w1"
      using loadHandler_miss [OF r(1)] n(3) r(2) by auto
    then show ?thesis using n(1,2)
      by (auto simp: new_handler_def Let_def split: option.splits)
  qed
  show ?thesis
    using h n(2) repl by (simp add: l1 l2 split_beta)
next
  case e: False
  show ?thesis
  proof (cases "uncached w key p")
    case False
    with e show ?thesis by (auto simp: split_beta)
  next
    case u: True
    note a = loadHandler_fails [OF reg e u]
    note b = loadHandler_fails [OF reg e a(2)]
    show ?thesis using e by (auto simp: a(1) b(1))
  qed
qed

theorem handler_cache_follows_process_witness:
  "map_of (m_integrations started) ''integration/A'' = Some procA
   \<and> cache_ok wire0
   \<and> MetricsHandlerErr (p_i procA) = None
   \<and> fst (loadHandler started ''integration/A'' (snd (loadHandler started ''integration/A'' wire0)))
       = fst (loadHandler started ''integration/A'' wire0)
   \<and> map_of (m_integrations restarted) ''integration/A'' = Some procA2
   \<and> p_id procA2 \<noteq> p_id procA
   \<and> fst (loadHandler restarted ''integration/A'' (snd (loadHandler started ''integration/A'' wire0)))
       \<noteq> fst (loadHandler started ''integration/A'' wire0)
   \<and> MetricsHandlerErr (p_i procA2) = None
   \<and> fst (loadHandler restarted ''integration/A'' (snd (loadHandler started ''integration/A'' wire0)))
       = WorkerHandler (made (snd (loadHandler started ''integration/A'' wire0)))
   \<and> map_of (m_integrations unscrapable) ''integration/A'' = Some procN
   \<and> MetricsHandlerErr (p_i procN) \<noteq> None
   \<and> uncached wire0 ''integration/A'' procN
   \<and> fst (loadHandler unscrapable ''integration/A''
            (snd (loadHandler unscrapable ''integration/A'' wire0))) = InternalServiceError
   \<and> made (snd (loadHandler unscrapable ''integration/A''
            (snd (loadHandler unscrapable ''integration/A'' wire0)))) = made wire0"
proof -
  have reg: "map_of (m_integrations started) ''integration/A'' = Some procA"
    by (simp add: started_registry)
  have h: "MetricsHandlerErr (p_i procA) = None"
    by (simp add: procA_def integration0_def)
  have r: "map_of (m_integrations restarted) ''integration/A'' = Some procA2 \<and> p_id procA2 \<noteq> p_id procA"
    by (simp add: restarted_registry procA2_def procA_def)
  note w = handler_cache_follows_process [OF reg cache_ok_wire0, unfolded split_beta Let_def]
  have 1: "fst (loadHandler started ''integration/A'' (snd (loadHandler started ''integration/A'' wire0)))
       = fst (loadHandler started ''integration/A'' wire0)"
    using w h by blast
  have 2: "fst (loadHandler restarted ''integration/A'' (snd (loadHandler started ''integration/A'' wire0)))
       \<noteq> fst (loadHandler started ''integration/A'' wire0)"
    using w h r by blast
  have h2: "MetricsHandlerErr (p_i procA2) = None"
    by (simp add: procA2_def integration0_def)
  have 3: "fst (loadHandler restarted ''integration/A'' (snd (loadHandler started ''integration/A'' wire0)))
       = WorkerHandler (made (snd (loadHandler started ''integration/A'' wire0)))"
    using w h r h2 by blast
  have regN: "map_of (m_integrations unscrapable) ''integration/A'' = Some procN"
    by (simp add: unscrapable_registry procN_def)
  have e: "MetricsHandlerErr (p_i procN) \<noteq> None"
    by (simp add: procN_def)
  have u: "uncached wire0 ''integration/A'' procN"
    by (simp add: uncached_def wire0_def)
  note v = handler_cache_follows_process [OF regN cache_ok_wire0, unfolded split_beta Let_def]
  from v e u have 4: "fst (loadHandler unscrapable ''integration/A''
            (snd (loadHandler unscrapable ''integration/A'' wire0))) = InternalServiceError
     \<and> made (snd (loadHandler unscrapable ''integration/A''
            (snd (loadHandler unscrapable ''integration/A'' wire0)))) = made wire0"
    by blast
  show ?thesis using reg cache_ok_wire0 h r 1 2 h2 3 regN e u 4 by blast
qed

text \<open>
  The claim as stated fails for a registered worker whose \<^verbatim>\<open>MetricsHandler()\<close> returns
  an error: both of two consecutive requests are answered by the internal-error handler,
  the worker is asked for a handler both times and nothing is cached.
\<close>

theorem handler_cache_failure_counterexample:
  "fst (loadHandler unscrapable ''integration/A'' wire0) = InternalServiceError
   \<and> fst (loadHandler unscrapable ''integration/A''
            (snd (loadHandler unscrapable ''integration/A'' wire0))) = InternalServiceError
   \<and> asked (snd (loadHandler unscrapable ''integration/A''
            (snd (loadHandler unscrapable ''integration/A'' wire0)))) = [0, 0]
   \<and> handlerCache (snd (loadHandler unscrapable ''integration/A''
            (snd (loadHandler unscrapable ''integration/A'' wire0)))) ''integration/A'' = None"
  by (simp add: loadHandler_def new_handler_def unscrapable_registry wire0_def integration0_def)

section \<open>ApplyConfig: the three loops\<close>

lemma integrationKey_inj [simp]: "integrationKey a = integrationKey b \<longleftrightarrow> a = b"
  by (simp add: integrationKey_def)

lemma emitted_trans:
  assumes "prefix (events m) (events m1)" "prefix (events m1) (events m2)"
  shows "emitted m m2 = emitted m m1 @ emitted m1 m2" "prefix (events m) (events m2)"
proof -
  from assms obtain a b where "events m1 = events m @ a" "events m2 = events m1 @ b"
    by (auto simp: prefix_def)
  then show "emitted m m2 = emitted m m1 @ emitted m1 m2" "prefix (events m) (events m2)"
    by (simp_all add: emitted_def)
qed

lemma delete_absent: "map_of al k = None \<Longrightarrow> AList.delete k al = al"
  by (rule AList.delete_id) (simp add: map_of_eq_None_iff)

lemma update_fresh: "k \<notin> fst ` set al \<Longrightarrow> AList.update k v al = al @ [(k, v)]"
  by (induction al) auto

lemma update_delete: "AList.update k v (AList.delete k al) = AList.delete k al @ [(k, v)]"
  by (rule update_fresh) (rule AList.delete_notin_dom)

lemma reconcile_entry_cases [consumes 1, case_names keep fail start]:
  assumes r: "reconcile_entry en ic (b, m) = (b', m')"
  obtains
    (keep) p where "map_of (m_integrations m) (integrationKey (Name ic)) = Some p" "p_cfg p = ic"
        "b' = b" "m' = m"
  | (fail) e where "\<forall>p. map_of (m_integrations m) (integrationKey (Name ic)) = Some p \<longrightarrow> p_cfg p \<noteq> ic"
        "NewIntegration en ic = Inl e" "b' = True"
        "events m' = events m @ stop_events m (integrationKey (Name ic))
            @ [NewIntegrationCall ic False,
               LogError ''failed to initialize integration. it will not run or be scraped'' (Name ic) (Some e),
               IM_DeleteConfig (integrationKey (Name ic))]"
        "m_integrations m' = AList.delete (integrationKey (Name ic)) (m_integrations m)"
        "next_pid m' = next_pid m"
  | (start) i where "\<forall>p. map_of (m_integrations m) (integrationKey (Name ic)) = Some p \<longrightarrow> p_cfg p \<noteq> ic"
        "NewIntegration en ic = Inr i" "b' = b"
        "events m' = events m @ stop_events m (integrationKey (Name ic))
            @ [NewIntegrationCall ic True, GoRun \<lparr>p_id = next_pid m, p_cfg = ic, p_i = i\<rparr>]"
        "m_integrations m' = AList.delete (integrationKey (Name ic)) (m_integrations m)
             @ [(integrationKey (Name ic), \<lparr>p_id = next_pid m, p_cfg = ic, p_i = i\<rparr>)]"
        "next_pid m' = Suc (next_pid m)"
proof (cases "map_of (m_integrations m) (integrationKey (Name ic))")
  case None
  note del = delete_absent [OF None]
  show ?thesis
  proof (cases "NewIntegration en ic")
    case (Inl e)
    show ?thesis
      by (rule fail [of e]) (use r None Inl del in \<open>auto simp: reconcile_entry_def stop_events_def Let_def\<close>)
  next
    case (Inr i)
    show ?thesis
      by (rule start [of i]) (use r None Inr del update_delete [of "integrationKey (Name ic)" _ "m_integrations m"] in \<open>auto simp: reconcile_entry_def stop_events_def Let_def\<close>)
  qed
next
  case (Some p)
  show ?thesis
  proof (cases "p_cfg p = ic")
    case True
    show ?thesis
      by (rule keep [of p]) (use r Some True in \<open>auto simp: reconcile_entry_def CompareYAML_def Let_def\<close>)
  next
    case False
    show ?thesis
    proof (cases "NewIntegration en ic")
      case (Inl e)
      show ?thesis
        by (rule fail [of e])
          (use r Some False Inl in \<open>auto simp: reconcile_entry_def stop_events_def CompareYAML_def Let_def\<close>)
    next
      case (Inr i)
      show ?thesis
        by (rule start [of i])
          (use r Some False Inr in \<open>auto simp: reconcile_entry_def stop_events_def CompareYAML_def Let_def update_delete\<close>)
    qed
  qed
qed

lemma wf_registry_iff:
  "wf_registry m \<longleftrightarrow>
     distinct (map fst (m_integrations m))
     \<and> distinct (map (\<lambda>kp. p_id (snd kp)) (m_integrations m))
     \<and> (\<forall>kp \<in> set (m_integrations m). fst kp = key_of (snd kp) \<and> p_id (snd kp) < next_pid m)"
  by (simp add: wf_registry_def list_all_iff)

lemma delete_filter: "AList.delete k al = filter (\<lambda>kp. fst kp \<noteq> k) al"
  by (induction al) auto

lemma reconcile_entry_prefix:
  assumes "reconcile_entry en ic (b, m) = (b', m')"
  shows "prefix (events m) (events m')"
  using assms by (cases rule: reconcile_entry_cases) auto

lemma reconcile_entry_flag:
  assumes "reconcile_entry en ic (b, m) = (b', m')"
  shows "b' \<longleftrightarrow> b \<or> (\<exists>e \<in> set (emitted m m'). failed_call e)"
  using assms
  by (cases rule: reconcile_entry_cases)
     (auto simp: emitted_def failed_call_def stop_events_def split: option.splits)

lemma reconcile_entry_wf:
  assumes "reconcile_entry en ic (b, m) = (b', m')" "wf_registry m"
  shows "wf_registry m'" "next_pid m \<le> next_pid m'"
  using assms
  by (cases rule: reconcile_entry_cases;
      auto simp: wf_registry_iff delete_filter distinct_map_filter key_of_def)+

lemma map_of_delete_app: "map_of (AList.delete k al @ [(k, v)]) = (map_of al)(k \<mapsto> v)"
  using AList.update_conv' [of k v "AList.delete k al"]
  by (simp add: update_delete AList.delete_conv')

lemma reconcile_entry_map_of:
  assumes "reconcile_entry en ic (b, m) = (b', m')" "k \<noteq> integrationKey (Name ic)"
  shows "map_of (m_integrations m') k = map_of (m_integrations m) k"
  using assms
  by (cases rule: reconcile_entry_cases)
     (simp_all add: map_of_delete_app AList.delete_conv' del: map_of_append)

lemma sweep_entry_cases [consumes 1, case_names found gone]:
  assumes s: "sweep_entry c (k, p) m = m'"
  obtains
    (found) "k \<in> config_keys c" "m' = m"
  | (gone) "k \<notin> config_keys c" "events m' = events m @ [IM_DeleteConfig k, ProcStop p]"
      "m_integrations m' = AList.delete k (m_integrations m)" "next_pid m' = next_pid m"
proof (cases "k \<in> config_keys c")
  case True
  show ?thesis
    by (rule found) (use s True in \<open>auto simp: sweep_entry_def config_keys_def list_ex_iff\<close>)
next
  case False
  show ?thesis
    by (rule gone) (use s False in \<open>auto simp: sweep_entry_def config_keys_def list_ex_iff\<close>)
qed

lemma reapply_entry_facts:
  assumes r: "reapply_entry en c (k, p) (b, m) = (b', m')"
  shows "prefix (events m) (events m')"
    and "m_integrations m' = m_integrations m"
    and "next_pid m' = next_pid m"
    and "b' \<longleftrightarrow> b \<or> (\<exists>e \<in> set (emitted m m'). failed_call e)"
    and "\<forall>e \<in> set (emitted m m'). neutral e"
    and "if should_collect c p then \<exists>ok. ValidatorCall k ok \<in> set (emitted m m')
         else IM_DeleteConfig k \<in> set (emitted m m')"
  using r
  by (auto simp: reapply_entry_def should_collect_def Let_def emitted_def failed_call_def neutral_def
      split: option.splits sum.splits if_splits)

lemma fold_flag:
  assumes step: "\<And>x b m b' m'. f x (b, m) = (b', m') \<Longrightarrow>
      prefix (events m) (events m') \<and> (b' \<longleftrightarrow> b \<or> (\<exists>e \<in> set (emitted m m'). failed_call e))"
  shows "fold f xs (b, m) = (b', m') \<Longrightarrow>
      prefix (events m) (events m') \<and> (b' \<longleftrightarrow> b \<or> (\<exists>e \<in> set (emitted m m'). failed_call e))"
proof (induction xs arbitrary: b m)
  case Nil
  then show ?case by simp
next
  case (Cons x xs)
  obtain b1 m1 where s: "f x (b, m) = (b1, m1)" by (cases "f x (b, m)")
  with Cons.prems have r: "fold f xs (b1, m1) = (b', m')" by simp
  note a = step [OF s] and i = Cons.IH [OF r]
  from a i have t: "emitted m m' = emitted m m1 @ emitted m1 m'" "prefix (events m) (events m')"
    by (auto intro: emitted_trans)
  show ?case using a i t by auto
qed

lemma reconcile_fold_flag:
  "fold (reconcile_entry en) cs (b, m) = (b', m') \<Longrightarrow>
     prefix (events m) (events m') \<and> (b' \<longleftrightarrow> b \<or> (\<exists>e \<in> set (emitted m m'). failed_call e))"
  by (rule fold_flag) (auto dest: reconcile_entry_prefix reconcile_entry_flag)

lemma reapply_fold_flag:
  "fold (reapply_entry en c) kps (b, m) = (b', m') \<Longrightarrow>
     prefix (events m) (events m') \<and> (b' \<longleftrightarrow> b \<or> (\<exists>e \<in> set (emitted m m'). failed_call e))"
proof (rule fold_flag)
  fix x b m b' m'
  assume "reapply_entry en c x (b, m) = (b', m')"
  then show "prefix (events m) (events m') \<and> (b' \<longleftrightarrow> b \<or> (\<exists>e \<in> set (emitted m m'). failed_call e))"
    using reapply_entry_facts(1,4) [of en c "fst x" "snd x" b m b' m'] by simp
qed

lemma reapply_fold_frame:
  "fold (reapply_entry en c) kps (b, m) = (b', m') \<Longrightarrow>
     m_integrations m' = m_integrations m \<and> next_pid m' = next_pid m
     \<and> (\<forall>e \<in> set (emitted m m'). neutral e)"
proof (induction kps arbitrary: b m)
  case Nil
  then show ?case by simp
next
  case (Cons x xs)
  obtain b1 m1 where s: "reapply_entry en c x (b, m) = (b1, m1)"
    by (cases "reapply_entry en c x (b, m)")
  with Cons.prems have r: "fold (reapply_entry en c) xs (b1, m1) = (b', m')" by simp
  note a = reapply_entry_facts [of en c "fst x" "snd x" b m b1 m1, simplified, OF s]
  note i = Cons.IH [OF r]
  have p: "prefix (events m1) (events m')" using reapply_fold_flag [OF r] by simp
  have t: "emitted m m' = emitted m m1 @ emitted m1 m'"
    using a(1) p by (rule emitted_trans)
  show ?case using a i t by auto
qed

lemma reapply_entry_steps:
  assumes r: "reapply_entry en c (k, p) (b, m) = (b', m')"
  shows "scrape_steps en c k p (emitted m m')"
    and "scrape_fails en c p \<longrightarrow> b'"
  using r
  by (auto simp: reapply_entry_def should_collect_def scrape_steps_def scrape_fails_def Let_def
        emitted_def sublist_Cons_right
      split: option.splits sum.splits if_splits)

lemma scrape_steps_mono:
  assumes "scrape_steps en c k p evs" "sublist evs evs'"
  shows "scrape_steps en c k p evs'"
proof -
  have s: "set evs \<subseteq> set evs'" using assms(2) by (rule set_mono_sublist)
  have t: "sublist xs evs \<Longrightarrow> sublist xs evs'" for xs
    using assms(2) by (rule sublist_order.order.trans [rotated])
  show ?thesis
    using assms(1) s t by (auto simp: scrape_steps_def split: if_splits sum.splits)
qed

lemma reapply_fold_steps:
  "fold (reapply_entry en c) kps (b, m) = (b', m') \<Longrightarrow> (k, p) \<in> set kps \<Longrightarrow>
     scrape_steps en c k p (emitted m m') \<and> (scrape_fails en c p \<longrightarrow> b')"
proof (induction kps arbitrary: b m)
  case Nil
  then show ?case by simp
next
  case (Cons x xs)
  obtain b1 m1 where s: "reapply_entry en c x (b, m) = (b1, m1)"
    by (cases "reapply_entry en c x (b, m)")
  with Cons.prems have r: "fold (reapply_entry en c) xs (b1, m1) = (b', m')" by simp
  note a = reapply_entry_facts [of en c "fst x" "snd x" b m b1 m1, simplified, OF s]
  have p: "prefix (events m1) (events m')" and fl: "b1 \<longrightarrow> b'"
    using reapply_fold_flag [OF r] by simp_all
  have t: "emitted m m' = emitted m m1 @ emitted m1 m'"
    using a(1) p by (rule emitted_trans)
  show ?case
  proof (cases "x = (k, p)")
    case True
    with s have s': "reapply_entry en c (k, p) (b, m) = (b1, m1)" by simp
    have "scrape_steps en c k p (emitted m m')"
      using reapply_entry_steps(1) [OF s'] unfolding t
      by (rule scrape_steps_mono) (rule sublist_append_rightI)
    then show ?thesis using reapply_entry_steps(2) [OF s'] fl by blast
  next
    case False
    with Cons.prems have "(k, p) \<in> set xs" by simp
    note i = Cons.IH [OF r this]
    have "scrape_steps en c k p (emitted m m')"
      using i [THEN conjunct1] unfolding t
      by (rule scrape_steps_mono) (rule sublist_append_leftI)
    then show ?thesis using i by blast
  qed
qed

lemma reconcile_fold_called:
  "fold (reconcile_entry en) cs (b, m) = (b', m') \<Longrightarrow> ic \<in> set cs \<Longrightarrow>
     kept m ic \<or> NewIntegrationCall ic (constructible en ic) \<in> set (emitted m m')"
proof (induction cs arbitrary: b m)
  case Nil
  then show ?case by simp
next
  case (Cons x xs)
  obtain b1 m1 where s: "reconcile_entry en x (b, m) = (b1, m1)"
    by (cases "reconcile_entry en x (b, m)")
  with Cons.prems have r: "fold (reconcile_entry en) xs (b1, m1) = (b', m')" by simp
  have p: "prefix (events m1) (events m')" using reconcile_fold_flag [OF r] by simp
  have t: "emitted m m' = emitted m m1 @ emitted m1 m'"
    using reconcile_entry_prefix [OF s] p by (rule emitted_trans)
  have here: "kept m x \<or> NewIntegrationCall x (constructible en x) \<in> set (emitted m m1)"
    using s by (cases rule: reconcile_entry_cases) (auto simp: emitted_def kept_def constructible_def)
  show ?case
  proof (cases "ic = x")
    case True
    then show ?thesis using here t by auto
  next
    case False
    with Cons.prems have "ic \<in> set xs" by simp
    from Cons.IH [OF r this] consider
      (called) "NewIntegrationCall ic (constructible en ic) \<in> set (emitted m1 m')"
      | (kept) p where "map_of (m_integrations m1) (integrationKey (Name ic)) = Some p" "p_cfg p = ic"
      by (auto simp: kept_def split: option.splits)
    then show ?thesis
    proof cases
      case called
      then show ?thesis using t by auto
    next
      case kept
      show ?thesis
      proof (cases "integrationKey (Name ic) = integrationKey (Name x)")
        case diff: False
        have "map_of (m_integrations m) (integrationKey (Name ic)) = Some p"
          using reconcile_entry_map_of [OF s diff] kept(1) by simp
        then show ?thesis using kept(2) by (simp add: kept_def)
      next
        case same: True
        from s show ?thesis
        proof (cases rule: reconcile_entry_cases)
          case (keep q)
          then show ?thesis using kept by (auto simp: kept_def)
        next
          case (fail e)
          then show ?thesis using kept same by (simp add: AList.delete_conv')
        next
          case (start i)
          then show ?thesis using kept same False
            by (auto simp: map_of_delete_app simp del: map_of_append)
        qed
      qed
    qed
  qed
qed

lemma sweep_entry_one:
  assumes "sweep_entry c (k, p) m = m'"
  shows "prefix (events m) (events m')"
    and "next_pid m' = next_pid m"
    and "m_integrations m' = filter (\<lambda>kp. fst kp \<in> config_keys c \<or> fst kp \<noteq> k) (m_integrations m)"
    and "set (emitted m m') = (if k \<in> config_keys c then {} else {IM_DeleteConfig k, ProcStop p})"
proof -
  have f: "k \<in> config_keys c \<Longrightarrow>
      filter (\<lambda>kp. fst kp \<in> config_keys c \<or> fst kp \<noteq> k) al = al" for al :: "(string \<times> integrationProcess) list"
    by (induction al) auto
  have g: "k \<notin> config_keys c \<Longrightarrow>
      filter (\<lambda>kp. fst kp \<in> config_keys c \<or> fst kp \<noteq> k) al = filter (\<lambda>kp. fst kp \<noteq> k) al"
      for al :: "(string \<times> integrationProcess) list"
    by (induction al) auto
  show "prefix (events m) (events m')" "next_pid m' = next_pid m"
    "m_integrations m' = filter (\<lambda>kp. fst kp \<in> config_keys c \<or> fst kp \<noteq> k) (m_integrations m)"
    "set (emitted m m') = (if k \<in> config_keys c then {} else {IM_DeleteConfig k, ProcStop p})"
    using assms f g
    by (cases rule: sweep_entry_cases; simp add: delete_filter emitted_def)+
qed

lemma sweep_fold:
  "fold (sweep_entry c) kps m = m' \<Longrightarrow>
     prefix (events m) (events m')
   \<and> next_pid m' = next_pid m
   \<and> m_integrations m' =
       filter (\<lambda>kp. fst kp \<in> config_keys c \<or> fst kp \<notin> fst ` set kps) (m_integrations m)
   \<and> set (emitted m m') =
       (\<Union>kp \<in> set kps. if fst kp \<in> config_keys c then {}
                          else {IM_DeleteConfig (fst kp), ProcStop (snd kp)})"
proof (induction kps arbitrary: m)
  case Nil
  then show ?case by simp
next
  case (Cons x xs)
  define m1 where "m1 = sweep_entry c x m"
  then have s: "sweep_entry c (fst x, snd x) m = m1" by simp
  from Cons.prems m1_def have r: "fold (sweep_entry c) xs m1 = m'" by simp
  note a = sweep_entry_one [OF s] and i = Cons.IH [OF r]
  have t: "emitted m m' = emitted m m1 @ emitted m1 m'" "prefix (events m) (events m')"
    using a(1) i by (auto intro: emitted_trans)
  have fl: "filter (\<lambda>kp. fst kp \<in> config_keys c \<or> fst kp \<notin> fst ` set xs)
              (filter (\<lambda>kp. fst kp \<in> config_keys c \<or> fst kp \<noteq> fst x) al)
          = filter (\<lambda>kp. fst kp \<in> config_keys c \<or> fst kp \<notin> fst ` set (x # xs)) al"
    for al :: "(string \<times> integrationProcess) list"
    by (induction al) auto
  have e: "set (emitted m m') =
       (\<Union>kp \<in> set (x # xs). if fst kp \<in> config_keys c then {}
                          else {IM_DeleteConfig (fst kp), ProcStop (snd kp)})"
    unfolding t(1) using a(4) i by simp
  have r: "m_integrations m' =
       filter (\<lambda>kp. fst kp \<in> config_keys c \<or> fst kp \<notin> fst ` set (x # xs)) (m_integrations m)"
    using i a(3) fl [of "m_integrations m"] by simp
  have n: "next_pid m' = next_pid m" using i a(2) by simp
  from t(2) n r e show ?case by blast
qed

lemma ApplyConfig_unfold:
  assumes "\<not> m_done m" "\<not> CompareYAML (m_cfg m) c"
  obtains b1 m1 m2 b3 m3 where
    "fold (reconcile_entry en) (Integrations c) (False, m) = (b1, m1)"
    "fold (sweep_entry c) (m_integrations m1) m1 = m2"
    "fold (reapply_entry en c) (m_integrations m2) (b1, m2) = (b3, m3)"
    "ApplyConfig en c m =
       (if b3 then Some (Other ''not all integrations were correctly updated'') else None,
        m3\<lparr>m_cfg := c\<rparr>)"
proof -
  obtain b1 m1 where 1: "fold (reconcile_entry en) (Integrations c) (False, m) = (b1, m1)"
    by (cases "fold (reconcile_entry en) (Integrations c) (False, m)")
  obtain b3 m3 where 3: "fold (reapply_entry en c)
       (m_integrations (fold (sweep_entry c) (m_integrations m1) m1))
       (b1, fold (sweep_entry c) (m_integrations m1) m1) = (b3, m3)"
    by (cases "fold (reapply_entry en c)
       (m_integrations (fold (sweep_entry c) (m_integrations m1) m1))
       (b1, fold (sweep_entry c) (m_integrations m1) m1)")
  show ?thesis
    by (rule that [OF 1 refl 3]) (simp add: ApplyConfig_def assms 1 3 Let_def)
qed

lemma ApplyConfig_events:
  assumes 1: "fold (reconcile_entry en) cs (b, m) = (b1, m1)"
      and 2: "fold (sweep_entry c) kps m1 = m2"
      and 3: "fold (reapply_entry en c) kps' (b1, m2) = (b3, m3)"
  shows "emitted m (m3\<lparr>m_cfg := c\<rparr>) = emitted m m1 @ emitted m1 m2 @ emitted m2 m3"
proof -
  have p1: "prefix (events m) (events m1)" using reconcile_fold_flag [OF 1] by simp
  have p2: "prefix (events m1) (events m2)" using sweep_fold [OF 2] by simp
  have p3: "prefix (events m2) (events m3)" using reapply_fold_flag [OF 3] by simp
  have p12: "prefix (events m) (events m2)" using p1 p2 by (rule emitted_trans)
  have a: "emitted m (m3\<lparr>m_cfg := c\<rparr>) = emitted m m3" by (simp add: emitted_def)
  have b: "emitted m m3 = emitted m m2 @ emitted m2 m3"
    using p12 p3 by (rule emitted_trans)
  have c: "emitted m m2 = emitted m m1 @ emitted m1 m2"
    using p1 p2 by (rule emitted_trans)
  show ?thesis unfolding a b c by simp
qed

text \<open>
  Claim C9, amended. A call of \<^verbatim>\<open>ApplyConfig\<close> that gets past its two guards (the manager
  is not stopped and the configuration differs from the stored one) returns an error if
  and only if one of the per-worker sub-steps of the call failed (a worker construction, a
  validation or an instance-manager apply), and that error is the aggregate one. Whether or
  not a sub-step failed, the new configuration is stored and every remaining step runs:
  every entry of the new configuration had its worker constructed, with the outcome the
  constructor gives, unless the registry already held a process built from exactly that
  entry, and a failed construction yields the error; every worker registered at the end
  that is to be scraped had its instance configuration validated and, when valid, handed
  to the instance manager right after, and a failure of either yields the error; every
  worker registered at the end that is not to be scraped had its instance configuration
  deleted. (On a stopped manager the call returns an error although no sub-step ran.)
\<close>

theorem apply_config_best_effort:
  assumes live: "\<not> m_done m" and new: "\<not> CompareYAML (m_cfg m) c"
  shows "(let (e, m') = ApplyConfig en c m; evs = emitted m m'
          in (e \<noteq> None \<longleftrightarrow> (\<exists>ev \<in> set evs. failed_call ev))
           \<and> (e = None \<or> e = Some (Other ''not all integrations were correctly updated''))
           \<and> m_cfg m' = c
           \<and> (\<forall>ic \<in> set (Integrations c).
                 kept m ic
                 \<or> (NewIntegrationCall ic (constructible en ic) \<in> set evs
                    \<and> (\<not> constructible en ic \<longrightarrow> e \<noteq> None)))
           \<and> (\<forall>kp \<in> set (m_integrations m').
                 scrape_steps en c (fst kp) (snd kp) evs
                 \<and> (scrape_fails en c (snd kp) \<longrightarrow> e \<noteq> None)))"
proof -
  from live new obtain b1 m1 m2 b3 m3 where
    1: "fold (reconcile_entry en) (Integrations c) (False, m) = (b1, m1)" and
    2: "fold (sweep_entry c) (m_integrations m1) m1 = m2" and
    3: "fold (reapply_entry en c) (m_integrations m2) (b1, m2) = (b3, m3)" and
    a: "ApplyConfig en c m =
       (if b3 then Some (Other ''not all integrations were correctly updated'') else None,
        m3\<lparr>m_cfg := c\<rparr>)"
    by (rule ApplyConfig_unfold)
  let ?evs = "emitted m (m3\<lparr>m_cfg := c\<rparr>)"
  have ev: "?evs = emitted m m1 @ emitted m1 m2 @ emitted m2 m3"
    using 1 2 3 by (rule ApplyConfig_events)
  have f1: "b1 \<longleftrightarrow> (\<exists>e \<in> set (emitted m m1). failed_call e)"
    using reconcile_fold_flag [OF 1] by simp
  have f2: "\<forall>e \<in> set (emitted m1 m2). \<not> failed_call e"
    using sweep_fold [OF 2] by (auto simp: failed_call_def split: if_splits)
  have f3: "b3 \<longleftrightarrow> b1 \<or> (\<exists>e \<in> set (emitted m2 m3). failed_call e)"
    using reapply_fold_flag [OF 3] by simp
  have A: "b3 \<longleftrightarrow> (\<exists>ev \<in> set ?evs. failed_call ev)"
    unfolding ev using f1 f2 f3 by auto
  have B: "kept m ic \<or> (NewIntegrationCall ic (constructible en ic) \<in> set ?evs
                         \<and> (\<not> constructible en ic \<longrightarrow> b3))"
    if "ic \<in> set (Integrations c)" for ic
  proof (cases "kept m ic")
    case True
    then show ?thesis by simp
  next
    case False
    with reconcile_fold_called [OF 1 that]
    have c: "NewIntegrationCall ic (constructible en ic) \<in> set (emitted m m1)" by simp
    have "failed_call (NewIntegrationCall ic False)" by (simp add: failed_call_def)
    with c have "\<not> constructible en ic \<longrightarrow> b1"
      unfolding f1 by auto
    then show ?thesis using c f3 unfolding ev by simp
  qed
  have reg: "m_integrations m3 = m_integrations m2"
    using reapply_fold_frame [OF 3] by simp
  have C: "scrape_steps en c (fst kp) (snd kp) ?evs \<and> (scrape_fails en c (snd kp) \<longrightarrow> b3)"
    if "kp \<in> set (m_integrations (m3\<lparr>m_cfg := c\<rparr>))" for kp
  proof -
    from that reg have "(fst kp, snd kp) \<in> set (m_integrations m2)" by simp
    note i = reapply_fold_steps [OF 3 this]
    have "sublist (emitted m2 m3) ?evs"
      unfolding ev by (metis append.assoc sublist_append_leftI)
    with i [THEN conjunct1] have "scrape_steps en c (fst kp) (snd kp) ?evs"
      by (rule scrape_steps_mono)
    then show ?thesis using i by blast
  qed
  have e: "(if b3 then Some (Other ''not all integrations were correctly updated'') else None) \<noteq> None
             \<longleftrightarrow> b3"
    by simp
  show ?thesis
    unfolding a split_conv Let_def e using A B C by simp
qed

lemma reconcile_entry_dom:
  assumes "reconcile_entry en ic (b, m) = (b', m')"
  shows "fst ` set (m_integrations m') =
           (fst ` set (m_integrations m) - {integrationKey (Name ic)})
           \<union> (if kept m ic \<or> constructible en ic then {integrationKey (Name ic)} else {})"
  using assms
proof (cases rule: reconcile_entry_cases)
  case (keep p)
  then have "integrationKey (Name ic) \<in> fst ` set (m_integrations m)"
    by (metis domI dom_map_of_conv_image_fst)
  with keep show ?thesis by (auto simp: kept_def)
next
  case (fail e)
  then have "\<not> kept m ic" "\<not> constructible en ic"
    by (auto simp: kept_def constructible_def split: option.splits)
  with fail(5) show ?thesis by (auto simp: delete_filter)
next
  case (start i)
  then have "constructible en ic" by (simp add: constructible_def)
  with start(5) show ?thesis by (auto simp: delete_filter)
qed

lemma reconcile_fold_map_of:
  "fold (reconcile_entry en) cs (b, m) = (b', m') \<Longrightarrow>
   k \<notin> (\<lambda>ic. integrationKey (Name ic)) ` set cs \<Longrightarrow>
   map_of (m_integrations m') k = map_of (m_integrations m) k"
proof (induction cs arbitrary: b m)
  case Nil
  then show ?case by simp
next
  case (Cons x xs)
  obtain b1 m1 where s: "reconcile_entry en x (b, m) = (b1, m1)"
    by (cases "reconcile_entry en x (b, m)")
  with Cons.prems have r: "fold (reconcile_entry en) xs (b1, m1) = (b', m')" by simp
  from Cons.prems(2) have k: "k \<noteq> integrationKey (Name x)"
    "k \<notin> (\<lambda>ic. integrationKey (Name ic)) ` set xs" by auto
  show ?case using Cons.IH [OF r k(2)] reconcile_entry_map_of [OF s k(1)] by simp
qed

lemma reconcile_fold_dom:
  "fold (reconcile_entry en) cs (b, m) = (b', m') \<Longrightarrow> distinct (map Name cs) \<Longrightarrow>
   fst ` set (m_integrations m') =
     (fst ` set (m_integrations m) - (\<lambda>ic. integrationKey (Name ic)) ` set cs)
     \<union> {integrationKey (Name ic) | ic. ic \<in> set cs \<and> (kept m ic \<or> constructible en ic)}"
proof (induction cs arbitrary: b m)
  case Nil
  then show ?case by simp
next
  case (Cons x xs)
  obtain b1 m1 where s: "reconcile_entry en x (b, m) = (b1, m1)"
    by (cases "reconcile_entry en x (b, m)")
  with Cons.prems have r: "fold (reconcile_entry en) xs (b1, m1) = (b', m')" by simp
  from Cons.prems(2) have d: "distinct (map Name xs)" and nx: "Name x \<notin> Name ` set xs" by auto
  have same: "kept m1 ic = kept m ic" if "ic \<in> set xs" for ic
  proof -
    from that nx have "integrationKey (Name ic) \<noteq> integrationKey (Name x)"
      by (metis imageI integrationKey_inj)
    from reconcile_entry_map_of [OF s this] show ?thesis by (simp add: kept_def)
  qed
  have kx: "integrationKey (Name x) \<notin> (\<lambda>ic. integrationKey (Name ic)) ` set xs"
    using nx by auto
  define K where "K = (\<lambda>ic. integrationKey (Name ic)) ` set xs"
  define P where "P = {integrationKey (Name ic) | ic. ic \<in> set xs \<and> (kept m ic \<or> constructible en ic)}"
  define Px where "Px = (if kept m x \<or> constructible en x then {integrationKey (Name x)} else {})"
  have P1: "{integrationKey (Name ic) | ic. ic \<in> set xs \<and> (kept m1 ic \<or> constructible en ic)} = P"
    unfolding P_def using same by blast
  have i: "fst ` set (m_integrations m') = (fst ` set (m_integrations m1) - K) \<union> P"
    using Cons.IH [OF r d] unfolding P1 K_def by simp
  have j: "fst ` set (m_integrations m1) = (fst ` set (m_integrations m) - {integrationKey (Name x)}) \<union> Px"
    using reconcile_entry_dom [OF s] unfolding Px_def by simp
  have px: "Px \<subseteq> {integrationKey (Name x)}" unfolding Px_def by simp
  have g1: "(\<lambda>ic. integrationKey (Name ic)) ` set (x # xs) = insert (integrationKey (Name x)) K"
    unfolding K_def by simp
  have g2: "{integrationKey (Name ic) | ic. ic \<in> set (x # xs) \<and> (kept m ic \<or> constructible en ic)}
              = Px \<union> P"
    unfolding Px_def P_def by auto
  have kx': "integrationKey (Name x) \<notin> K" using kx unfolding K_def .
  show ?case
    unfolding g1 g2 i j using px kx' by blast
qed

lemma filter_all_keys:
  "filter (\<lambda>kp. fst kp \<in> A \<or> fst kp \<notin> fst ` set al) al = filter (\<lambda>kp. fst kp \<in> A) al"
  by (rule filter_cong) auto

text \<open>
  Claim C1, amended. Let \<^verbatim>\<open>ApplyConfig(C2)\<close> get past its two guards, and let the entries
  of \<open>C2\<close> have distinct names and all be enabled. Afterwards the registry holds exactly
  the identity keys of the entries of \<open>C2\<close> whose worker could be constructed or was
  already registered with exactly that configuration; an entry whose construction fails
  has no key in the registry. Every key registered before and absent from \<open>C2\<close> has had
  \<^verbatim>\<open>DeleteConfig\<close> called on the instance manager and its process stopped and removed.
\<close>

theorem registry_after_apply_config:
  assumes live: "\<not> m_done m" and new: "\<not> CompareYAML (m_cfg m) c"
      and names: "distinct (map Name (Integrations c))"
      and enabled: "\<forall>ic \<in> set (Integrations c). Enabled (Common ic)"
  shows "(let m' = snd (ApplyConfig en c m); evs = emitted m m'
          in fst ` set (m_integrations m') =
               {integrationKey (Name ic) | ic.
                  ic \<in> set (Integrations c) \<and> (kept m ic \<or> constructible en ic)}
           \<and> (\<forall>k p. map_of (m_integrations m) k = Some p \<and> k \<notin> config_keys c \<longrightarrow>
                  IM_DeleteConfig k \<in> set evs \<and> ProcStop p \<in> set evs
                \<and> k \<notin> fst ` set (m_integrations m')))"
proof -
  from live new obtain b1 m1 m2 b3 m3 where
    1: "fold (reconcile_entry en) (Integrations c) (False, m) = (b1, m1)" and
    2: "fold (sweep_entry c) (m_integrations m1) m1 = m2" and
    3: "fold (reapply_entry en c) (m_integrations m2) (b1, m2) = (b3, m3)" and
    a: "ApplyConfig en c m =
       (if b3 then Some (Other ''not all integrations were correctly updated'') else None,
        m3\<lparr>m_cfg := c\<rparr>)"
    by (rule ApplyConfig_unfold)
  let ?m' = "m3\<lparr>m_cfg := c\<rparr>"
  have ev: "emitted m ?m' = emitted m m1 @ emitted m1 m2 @ emitted m2 m3"
    using 1 2 3 by (rule ApplyConfig_events)
  have reg3: "m_integrations ?m' = m_integrations m2"
    using reapply_fold_frame [OF 3] by simp
  have reg2: "m_integrations m2 = filter (\<lambda>kp. fst kp \<in> config_keys c) (m_integrations m1)"
    using sweep_fold [OF 2] by (simp add: filter_all_keys)
  have dom1: "fst ` set (m_integrations m1) =
     (fst ` set (m_integrations m) - config_keys c)
     \<union> {integrationKey (Name ic) | ic. ic \<in> set (Integrations c) \<and> (kept m ic \<or> constructible en ic)}"
    using reconcile_fold_dom [OF 1 names] by (simp add: config_keys_def)
  have dom2: "fst ` set (m_integrations m2) = fst ` set (m_integrations m1) \<inter> config_keys c"
    unfolding reg2 by auto
  have A: "fst ` set (m_integrations ?m') =
     {integrationKey (Name ic) | ic. ic \<in> set (Integrations c) \<and> (kept m ic \<or> constructible en ic)}"
    unfolding reg3 dom2 dom1 by (auto simp: config_keys_def)
  have B: "IM_DeleteConfig k \<in> set (emitted m ?m') \<and> ProcStop p \<in> set (emitted m ?m')
           \<and> k \<notin> fst ` set (m_integrations ?m')"
    if kp: "map_of (m_integrations m) k = Some p" and k: "k \<notin> config_keys c" for k p
  proof -
    have "map_of (m_integrations m1) k = Some p"
      using reconcile_fold_map_of [OF 1] k kp by (simp add: config_keys_def)
    then have "(k, p) \<in> set (m_integrations m1)" by (rule map_of_SomeD)
    then have "{IM_DeleteConfig k, ProcStop p} \<subseteq> set (emitted m1 m2)"
      using sweep_fold [OF 2] k by force
    moreover have "k \<notin> fst ` set (m_integrations ?m')"
      unfolding reg3 dom2 using k by simp
    ultimately show ?thesis unfolding ev by auto
  qed
  have B': "\<forall>k p. map_of (m_integrations m) k = Some p \<and> k \<notin> config_keys c \<longrightarrow>
                  IM_DeleteConfig k \<in> set (emitted m ?m') \<and> ProcStop p \<in> set (emitted m ?m')
                \<and> k \<notin> fst ` set (m_integrations ?m')"
    using B by blast
  show ?thesis
    unfolding Let_def a snd_conv using A B' by (rule conjI)
qed

lemma started_done: "\<not> m_done started"
  by (simp add: started_def eval_defs)

lemma started_cfg: "m_cfg started = config0 [worker ''A'' ''v1'']"
  unfolding started_def by (rule ApplyConfig_stores_cfg) (simp add: emptyManager_def)

theorem apply_config_best_effort_witness:
  "\<not> m_done emptyManager
   \<and> \<not> CompareYAML (m_cfg emptyManager) (config0 [worker ''A'' ''v1'', worker ''B'' ''bad''])
   \<and> fst (ApplyConfig env0 (config0 [worker ''A'' ''v1'', worker ''B'' ''bad'']) emptyManager)
        = Some (Other ''not all integrations were correctly updated'')
   \<and> m_cfg (snd (ApplyConfig env0 (config0 [worker ''A'' ''v1'', worker ''B'' ''bad'']) emptyManager))
        = config0 [worker ''A'' ''v1'', worker ''B'' ''bad'']
   \<and> NewIntegrationCall (worker ''B'' ''bad'') False
        \<in> set (emitted emptyManager
                 (snd (ApplyConfig env0 (config0 [worker ''A'' ''v1'', worker ''B'' ''bad'']) emptyManager)))
   \<and> \<not> CompareYAML (m_cfg emptyManager) (config0 [worker ''A'' ''v1''])
   \<and> (''integration/A'', procA)
        \<in> set (m_integrations (snd (ApplyConfig env1 (config0 [worker ''A'' ''v1'']) emptyManager)))
   \<and> scrape_fails env1 (config0 [worker ''A'' ''v1'']) procA
   \<and> fst (ApplyConfig env1 (config0 [worker ''A'' ''v1'']) emptyManager)
        = Some (Other ''not all integrations were correctly updated'')
   \<and> IM_ApplyConfig
        (instanceConfigForIntegration env1 (p_cfg procA) (p_i procA) (config0 [worker ''A'' ''v1'']))
        False
        \<in> set (emitted emptyManager (snd (ApplyConfig env1 (config0 [worker ''A'' ''v1'']) emptyManager)))"
proof -
  let ?c = "config0 [worker ''A'' ''v1'', worker ''B'' ''bad'']"
  let ?c1 = "config0 [worker ''A'' ''v1'']"
  have live: "\<not> m_done emptyManager" by (simp add: emptyManager_def)
  have new: "\<not> CompareYAML (m_cfg emptyManager) ?c"
    by (simp add: CompareYAML_def emptyManager_def config0_def zeroManagerConfig_def)
  have failed: "fst (ApplyConfig env0 ?c emptyManager) \<noteq> None"
    by (simp add: eval_defs)
  note w = apply_config_best_effort [OF live new, of env0, unfolded split_beta Let_def]
  from w failed have 1: "fst (ApplyConfig env0 ?c emptyManager)
        = Some (Other ''not all integrations were correctly updated'')" by blast
  from w have 2: "m_cfg (snd (ApplyConfig env0 ?c emptyManager)) = ?c" by blast
  have b: "worker ''B'' ''bad'' \<in> set (Integrations ?c)"
    "\<not> kept emptyManager (worker ''B'' ''bad'')" "\<not> constructible env0 (worker ''B'' ''bad'')"
    by (simp_all add: config0_def kept_def emptyManager_def constructible_def env0_def worker_def)
  from w b have 3: "NewIntegrationCall (worker ''B'' ''bad'') False
        \<in> set (emitted emptyManager (snd (ApplyConfig env0 ?c emptyManager)))"
    by metis
  have new1: "\<not> CompareYAML (m_cfg emptyManager) ?c1"
    by (simp add: CompareYAML_def emptyManager_def config0_def zeroManagerConfig_def)
  have reg: "(''integration/A'', procA)
        \<in> set (m_integrations (snd (ApplyConfig env1 ?c1 emptyManager)))"
    by (simp add: eval_defs env1_def procA_def)
  have v: "validator env1 = Inr" "\<And>x. im_ApplyConfig env1 x \<noteq> None"
    by (simp_all add: env1_def env0_def)
  have sc: "should_collect ?c1 procA"
    by (simp add: should_collect_def procA_def worker_def common0_def config0_def)
  have sf: "scrape_fails env1 ?c1 procA"
    using sc by (simp add: scrape_fails_def v)
  note u = apply_config_best_effort [OF live new1, of env1, unfolded split_beta Let_def]
  from u reg have st: "scrape_steps env1 ?c1 (fst (''integration/A'', procA)) (snd (''integration/A'', procA))
                    (emitted emptyManager (snd (ApplyConfig env1 ?c1 emptyManager)))
     \<and> (scrape_fails env1 ?c1 (snd (''integration/A'', procA))
           \<longrightarrow> fst (ApplyConfig env1 ?c1 emptyManager) \<noteq> None)"
    by blast
  then have ne: "fst (ApplyConfig env1 ?c1 emptyManager) \<noteq> None" using sf by simp
  from u ne have 4: "fst (ApplyConfig env1 ?c1 emptyManager)
        = Some (Other ''not all integrations were correctly updated'')" by blast
  from st have "sublist [ValidatorCall ''integration/A'' True,
                         IM_ApplyConfig (instanceConfigForIntegration env1 (p_cfg procA) (p_i procA) ?c1) False]
                  (emitted emptyManager (snd (ApplyConfig env1 ?c1 emptyManager)))"
    using sc by (simp add: scrape_steps_def v)
  from set_mono_sublist [OF this] have 5: "IM_ApplyConfig
        (instanceConfigForIntegration env1 (p_cfg procA) (p_i procA) ?c1) False
        \<in> set (emitted emptyManager (snd (ApplyConfig env1 ?c1 emptyManager)))"
    by simp
  show ?thesis using live new 1 2 3 new1 reg sf 4 5 by blast
qed

text \<open>
  The claim as stated fails on a stopped manager: the call returns an error, nothing was
  attempted, so no sub-step failed, and the new configuration is not stored.
\<close>

theorem apply_config_stopped_error_counterexample:
  "fst (ApplyConfig env0 (config0 [worker ''A'' ''v2'']) (Stop started))
      = Some (Other ''Manager already stopped'')
   \<and> emitted (Stop started) (snd (ApplyConfig env0 (config0 [worker ''A'' ''v2'']) (Stop started))) = []
   \<and> m_cfg (snd (ApplyConfig env0 (config0 [worker ''A'' ''v2'']) (Stop started)))
      \<noteq> config0 [worker ''A'' ''v2'']"
proof -
  have ne: "\<not> CompareYAML (m_cfg (Stop started)) (config0 [worker ''A'' ''v2''])"
    by (simp add: started_cfg CompareYAML_def config0_def zeroManagerConfig_def worker_def)
  then have "ApplyConfig env0 (config0 [worker ''A'' ''v2'']) (Stop started)
      = (Some (Other ''Manager already stopped''), Stop started)"
    by (simp add: ApplyConfig_def)
  then show ?thesis using ne by (simp add: CompareYAML_def)
qed

lemma keys_as_image:
  "{integrationKey (Name ic) | ic. ic \<in> set cs \<and> P ic}
     = (\<lambda>ic. integrationKey (Name ic)) ` set (filter P cs)"
  by auto

theorem registry_after_apply_config_witness:
  "\<not> m_done started
   \<and> \<not> CompareYAML (m_cfg started) (config0 [worker ''C'' ''v1'', worker ''B'' ''bad''])
   \<and> distinct (map Name (Integrations (config0 [worker ''C'' ''v1'', worker ''B'' ''bad''])))
   \<and> list_all (\<lambda>ic. Enabled (Common ic)) (Integrations (config0 [worker ''C'' ''v1'', worker ''B'' ''bad'']))
   \<and> fst ` set (m_integrations (snd (ApplyConfig env0 (config0 [worker ''C'' ''v1'', worker ''B'' ''bad'']) started)))
        = {''integration/C''}
   \<and> IM_DeleteConfig ''integration/A''
        \<in> set (emitted started (snd (ApplyConfig env0 (config0 [worker ''C'' ''v1'', worker ''B'' ''bad'']) started)))
   \<and> ProcStop procA
        \<in> set (emitted started (snd (ApplyConfig env0 (config0 [worker ''C'' ''v1'', worker ''B'' ''bad'']) started)))"
proof -
  let ?c = "config0 [worker ''C'' ''v1'', worker ''B'' ''bad'']"
  have new: "\<not> CompareYAML (m_cfg started) ?c"
    by (simp add: started_cfg CompareYAML_def config0_def zeroManagerConfig_def worker_def)
  have names: "distinct (map Name (Integrations ?c))"
    by (simp add: config0_def worker_def)
  have enabled: "\<forall>ic \<in> set (Integrations ?c). Enabled (Common ic)"
    by (simp add: config0_def worker_def common0_def)
  note w = registry_after_apply_config [OF started_done new names enabled, of env0, unfolded Let_def]
  have k: "{integrationKey (Name ic) | ic. ic \<in> set (Integrations ?c) \<and> (kept started ic \<or> constructible env0 ic)}
      = {''integration/C''}"
    unfolding keys_as_image
    by (simp add: config0_def worker_def kept_def constructible_def env0_def started_registry
        integrationKey_def)
  have old: "map_of (m_integrations started) ''integration/A'' = Some procA
      \<and> ''integration/A'' \<notin> config_keys ?c"
    by (simp add: started_registry config_keys_def config0_def worker_def integrationKey_def)
  from w k have 1: "fst ` set (m_integrations (snd (ApplyConfig env0 ?c started))) = {''integration/C''}"
    by simp
  from w old have 2: "IM_DeleteConfig ''integration/A'' \<in> set (emitted started (snd (ApplyConfig env0 ?c started)))
      \<and> ProcStop procA \<in> set (emitted started (snd (ApplyConfig env0 ?c started)))"
    by blast
  have en': "list_all (\<lambda>ic. Enabled (Common ic)) (Integrations ?c)"
    using enabled by (simp add: list_all_iff)
  show ?thesis using started_done new names en' 1 2 by blast
qed

text \<open>
  The claim as stated fails: the only entry of the configuration is present and enabled,
  its construction fails, and the registry is empty after the call.
\<close>

theorem registry_construction_failure_counterexample:
  "m_integrations (snd (ApplyConfig env0 (config0 [worker ''B'' ''bad'']) emptyManager)) = []
   \<and> Integrations (config0 [worker ''B'' ''bad'']) = [worker ''B'' ''bad'']
   \<and> Enabled (Common (worker ''B'' ''bad''))"
  by (simp add: eval_defs common0_def)

section \<open>ApplyConfig: which processes are stopped, and when\<close>

lemma wf_lookup:
  assumes "wf_registry m" "(k, q) \<in> set (m_integrations m)"
  shows "map_of (m_integrations m) k = Some q" "k = key_of q" "p_id q < next_pid m"
  using assms by (auto simp: wf_registry_iff)

























lemma wf_emptyManager: "wf_registry emptyManager"
  by (simp add: wf_registry_def emptyManager_def)







subsection \<open>The configuration a process was built from\<close>

text \<open>
  The first loop compares an entry with the configuration the registered process was
  built from. That configuration is an entry of the configuration the manager has stored:
  this holds for the empty manager and every call of \<^verbatim>\<open>ApplyConfig\<close> keeps it, so
  "unchanged against the process" and "unchanged against the old configuration" say the
  same of a key that both configurations have once.
\<close>

lemma from_stored_emptyManager: "from_stored emptyManager"
  by (simp add: from_stored_def emptyManager_def)

lemma reconcile_entry_cfgs:
  assumes s: "reconcile_entry en ic (b, m) = (b', m')" and wf: "wf_registry m"
      and Q: "\<forall>kp \<in> set (m_integrations m).
                fst kp \<in> (\<lambda>ic. integrationKey (Name ic)) ` S \<longrightarrow> p_cfg (snd kp) \<in> S"
  shows "\<forall>kp \<in> set (m_integrations m').
           fst kp \<in> (\<lambda>ic. integrationKey (Name ic)) ` insert ic S \<longrightarrow> p_cfg (snd kp) \<in> insert ic S"
  using s
proof (cases rule: reconcile_entry_cases)
  case (keep p)
  show ?thesis
  proof (intro ballI impI)
    fix kp assume kp: "kp \<in> set (m_integrations m')"
      and k: "fst kp \<in> (\<lambda>ic. integrationKey (Name ic)) ` insert ic S"
    from kp keep(4) have in_m: "(fst kp, snd kp) \<in> set (m_integrations m)" by simp
    show "p_cfg (snd kp) \<in> insert ic S"
    proof (cases "fst kp = integrationKey (Name ic)")
      case True
      with wf_lookup(1) [OF wf in_m] keep(1) have "snd kp = p" by simp
      with keep(2) show ?thesis by simp
    next
      case False
      with k have "fst kp \<in> (\<lambda>ic. integrationKey (Name ic)) ` S" by auto
      with Q in_m show ?thesis by auto
    qed
  qed
next
  case (fail e)
  show ?thesis
    unfolding fail(5) using Q by (auto simp: delete_filter)
next
  case (start i)
  show ?thesis
    unfolding start(5) using Q by (auto simp: delete_filter)
qed

lemma reconcile_fold_cfgs:
  "fold (reconcile_entry en) cs (b, m) = (b', m') \<Longrightarrow> wf_registry m \<Longrightarrow>
   \<forall>kp \<in> set (m_integrations m).
      fst kp \<in> (\<lambda>ic. integrationKey (Name ic)) ` S \<longrightarrow> p_cfg (snd kp) \<in> S \<Longrightarrow>
   \<forall>kp \<in> set (m_integrations m').
      fst kp \<in> (\<lambda>ic. integrationKey (Name ic)) ` (S \<union> set cs) \<longrightarrow> p_cfg (snd kp) \<in> S \<union> set cs"
proof (induction cs arbitrary: b m S)
  case Nil
  then show ?case by simp
next
  case (Cons x xs)
  obtain b1 m1 where s: "reconcile_entry en x (b, m) = (b1, m1)"
    by (cases "reconcile_entry en x (b, m)")
  with Cons.prems have r: "fold (reconcile_entry en) xs (b1, m1) = (b', m')" by simp
  note a = reconcile_entry_cfgs [OF s Cons.prems(2,3)]
  note wf1 = reconcile_entry_wf(1) [OF s Cons.prems(2)]
  from Cons.IH [OF r wf1 a] show ?case by simp
qed

lemma ApplyConfig_from_stored:
  assumes wf: "wf_registry m" and fs: "from_stored m"
  shows "from_stored (snd (ApplyConfig en c m))"
proof (cases "\<not> m_done m \<and> \<not> CompareYAML (m_cfg m) c")
  case False
  then have "snd (ApplyConfig en c m) = m" by (auto simp: ApplyConfig_def)
  with fs show ?thesis by simp
next
  case True
  then obtain b1 m1 m2 b3 m3 where
    1: "fold (reconcile_entry en) (Integrations c) (False, m) = (b1, m1)" and
    2: "fold (sweep_entry c) (m_integrations m1) m1 = m2" and
    3: "fold (reapply_entry en c) (m_integrations m2) (b1, m2) = (b3, m3)" and
    a: "ApplyConfig en c m =
       (if b3 then Some (Other ''not all integrations were correctly updated'') else None,
        m3\<lparr>m_cfg := c\<rparr>)"
    using ApplyConfig_unfold [of m c en] by blast
  have reg3: "m_integrations m3 = m_integrations m2"
    using reapply_fold_frame [OF 3] by simp
  have reg2: "m_integrations m2 = filter (\<lambda>kp. fst kp \<in> config_keys c) (m_integrations m1)"
    using sweep_fold [OF 2] by (simp add: filter_all_keys)
  have "\<forall>kp \<in> set (m_integrations m1).
      fst kp \<in> config_keys c \<longrightarrow> p_cfg (snd kp) \<in> set (Integrations c)"
    using reconcile_fold_cfgs [OF 1 wf, of "{}"] by (simp add: config_keys_def)
  then show ?thesis
    unfolding a by (simp add: from_stored_def list_all_iff reg3 reg2)
qed

end
